theory Spec2Isabelle
  imports Main "HOL-Library.Monad_Syntax"
begin

section \<open>Finalizer handling of pkg/utils/common/finalizer.go\<close>

text \<open>
  The file manages finalizer tokens in the metadata of Ingress and Service objects.
  It is embedded at two levels. The value level below treats an object as a value and
  an external store as a client that records what it was sent and answers through an
  oracle. The heap level further down places the objects and the backing arrays of
  their slices in an explicit store, so that writing through a shared reference is
  expressible.
\<close>

subsection \<open>Data model\<close>

text \<open>
  \<open>meta_v1.ObjectMeta\<close>: the four fields the code reads. Every other field of the Go
  struct lives in the extension part of the record scheme, so a statement about a
  value of type \<open>'m ObjectMeta_scheme\<close> covers them as well. \<open>DeletionTimestamp\<close> is a
  pointer in Go, \<open>nil\<close> is \<open>None\<close>. A \<open>nil\<close> slice and an empty slice are both the
  empty list: the code only ranges over the slice and appends to it.
\<close>

type_synonym Time = nat

record ObjectMeta =
  Name :: string
  Namespace :: string
  DeletionTimestamp :: "Time option"
  Finalizers :: "string list"

text \<open>
  \<open>v1beta1.Ingress\<close> and \<open>corev1.Service\<close>: the embedded \<open>ObjectMeta\<close>; type
  information, spec and status are the extension part of the scheme.
\<close>

record 'm Ingress =
  ing_ObjectMeta :: "'m ObjectMeta_scheme"

record 'm Service =
  svc_ObjectMeta :: "'m ObjectMeta_scheme"

text \<open>A Go \<open>error\<close> is represented by its message, the text \<open>%v\<close> prints.\<close>

type_synonym error = string

subsection \<open>The finalizer tokens\<close>

definition FinalizerKey :: string where
  "FinalizerKey = ''networking.gke.io/ingress-finalizer''"

definition FinalizerKeyV2 :: string where
  "FinalizerKeyV2 = ''networking.gke.io/ingress-finalizer-V2''"

definition LegacyILBFinalizer :: string where
  "LegacyILBFinalizer = ''gke.networking.io/l4-ilb-v1''"

definition ILBFinalizerV2 :: string where
  "ILBFinalizerV2 = ''gke.networking.io/l4-ilb-v2''"

definition NegFinalizerKey :: string where
  "NegFinalizerKey = ''networking.gke.io/neg-finalizer''"

subsection \<open>Collaborators: string slices and deep copies\<close>

text \<open>
  Modelled from the spec: \<open>slice.ContainsString\<close> and \<open>slice.RemoveString\<close> belong to the
  imported package \<open>k8s.io/kubernetes/pkg/util/slice\<close>, which is not among the sources.
  Section 4.1 describes the first as presence of the token by exact string match,
  sections 4.2 and 4.3 the second as removal of all occurrences. Both take a modifier
  that is applied to each item before a second comparison; every call of the file passes
  \<open>nil\<close>, here \<open>None\<close>. The loops run over the slice from the front; \<open>RemoveString\<close>
  collects the kept items by appending to a new slice.
\<close>

fun ContainsString :: "string list \<Rightarrow> string \<Rightarrow> (string \<Rightarrow> string) option \<Rightarrow> bool" where
  "ContainsString [] s modifier = False"
| "ContainsString (item # rest) s modifier =
     (if item = s then True
      else if (case modifier of None \<Rightarrow> False | Some f \<Rightarrow> f item = s) then True
      else ContainsString rest s modifier)"

fun RemoveString_loop ::
  "string list \<Rightarrow> string \<Rightarrow> (string \<Rightarrow> string) option \<Rightarrow> string list \<Rightarrow> string list" where
  "RemoveString_loop [] s modifier newSlice = newSlice"
| "RemoveString_loop (item # rest) s modifier newSlice =
     (if item = s then RemoveString_loop rest s modifier newSlice
      else if (case modifier of None \<Rightarrow> False | Some f \<Rightarrow> f item = s)
      then RemoveString_loop rest s modifier newSlice
      else RemoveString_loop rest s modifier (newSlice @ [item]))"

definition RemoveString :: "string list \<Rightarrow> string \<Rightarrow> (string \<Rightarrow> string) option \<Rightarrow> string list" where
  "RemoveString slice s modifier =
     (let newSlice = RemoveString_loop slice s modifier []
      in if length newSlice = 0 then [] else newSlice)"

text \<open>
  Modelled from the spec: the generated \<open>DeepCopy\<close> methods are not among the sources.
  Section 6 requires a fully independent clone of a resource and its metadata. On
  values a clone is an equal value; its independence is the subject of the heap level.
\<close>

definition DeepCopy :: "'a \<Rightarrow> 'a" where
  "DeepCopy x = x"

subsection \<open>Predicate layer\<close>

definition HasGivenFinalizer :: "'m ObjectMeta_scheme \<Rightarrow> string \<Rightarrow> bool" where
  "HasGivenFinalizer m key = ContainsString (Finalizers m) key None"

definition IsDeletionCandidateForGivenFinalizer :: "'m ObjectMeta_scheme \<Rightarrow> string \<Rightarrow> bool" where
  "IsDeletionCandidateForGivenFinalizer m key =
     (DeletionTimestamp m \<noteq> None \<and> HasGivenFinalizer m key)"

definition IsDeletionCandidate :: "'m ObjectMeta_scheme \<Rightarrow> bool" where
  "IsDeletionCandidate m =
     (IsDeletionCandidateForGivenFinalizer m FinalizerKey
      \<or> IsDeletionCandidateForGivenFinalizer m FinalizerKeyV2)"

definition HasFinalizer :: "'m ObjectMeta_scheme \<Rightarrow> bool" where
  "HasFinalizer m = (HasGivenFinalizer m FinalizerKey \<or> HasGivenFinalizer m FinalizerKeyV2)"

definition needToAddFinalizer :: "'m ObjectMeta_scheme \<Rightarrow> string \<Rightarrow> bool" where
  "needToAddFinalizer m key = (DeletionTimestamp m = None \<and> \<not> HasGivenFinalizer m key)"

subsection \<open>Mutation layer, Ingress\<close>

text \<open>
  Modelled from the spec: \<open>PatchIngressObjectMetadata\<close> is a function of the same package
  that is not among the sources. By section 4.2 the call submits a patch, with the
  original object as the old snapshot and the given metadata as the new one, to the
  store behind the client, and yields the patched object or an error. The client is its
  record of submissions together with an oracle for the answers, which may depend on
  everything submitted before.
\<close>

type_synonym ('m, 'z) IngressPatch = "('m, 'z) Ingress_scheme \<times> 'm ObjectMeta_scheme"

record ('m, 'z) IngressInterface =
  ic_answer :: "('m, 'z) IngressPatch list \<Rightarrow> ('m, 'z) IngressPatch \<Rightarrow> error + ('m, 'z) Ingress_scheme"
  ic_submitted :: "('m, 'z) IngressPatch list"

definition PatchIngressObjectMetadata ::
  "('m, 'z) IngressInterface \<Rightarrow> ('m, 'z) Ingress_scheme \<Rightarrow> 'm ObjectMeta_scheme
   \<Rightarrow> (error + ('m, 'z) Ingress_scheme) \<times> ('m, 'z) IngressInterface" where
  "PatchIngressObjectMetadata ic ing newObjectMetadata =
     (ic_answer ic (ic_submitted ic) (ing, newObjectMetadata),
      ic\<lparr>ic_submitted := ic_submitted ic @ [(ing, newObjectMetadata)]\<rparr>)"

text \<open>
  \<open>EnsureFinalizer\<close> returns \<open>(updated, nil)\<close> or \<open>(nil, err)\<close>: a sum, with the client
  as it is after the call. Logging through \<open>klog\<close> has no effect on either.
\<close>

definition EnsureFinalizer ::
  "('m, 'z) Ingress_scheme \<Rightarrow> ('m, 'z) IngressInterface \<Rightarrow> string
   \<Rightarrow> (error + ('m, 'z) Ingress_scheme) \<times> ('m, 'z) IngressInterface" where
  "EnsureFinalizer ing ingClient finalizerKey =
     (let updated = DeepCopy ing in
      if needToAddFinalizer (ing_ObjectMeta ing) finalizerKey then
        (let updated = updated\<lparr>ing_ObjectMeta := (ing_ObjectMeta updated)
               \<lparr>Finalizers := Finalizers (ing_ObjectMeta updated) @ [finalizerKey]\<rparr>\<rparr>
         in case PatchIngressObjectMetadata ingClient ing (ing_ObjectMeta updated) of
              (Inl err, ingClient') \<Rightarrow>
                (Inl (''error patching Ingress '' @ Namespace (ing_ObjectMeta ing) @ ''/''
                      @ Name (ing_ObjectMeta ing) @ '': '' @ err), ingClient')
            | (Inr _, ingClient') \<Rightarrow> (Inr updated, ingClient'))
      else (Inr updated, ingClient))"

definition EnsureDeleteFinalizer ::
  "('m, 'z) Ingress_scheme \<Rightarrow> ('m, 'z) IngressInterface \<Rightarrow> string
   \<Rightarrow> error option \<times> ('m, 'z) IngressInterface" where
  "EnsureDeleteFinalizer ing ingClient finalizerKey =
     (if HasGivenFinalizer (ing_ObjectMeta ing) finalizerKey then
        (let updatedObjectMeta = DeepCopy (ing_ObjectMeta ing);
             updatedObjectMeta = updatedObjectMeta
               \<lparr>Finalizers := RemoveString (Finalizers updatedObjectMeta) finalizerKey None\<rparr>
         in case PatchIngressObjectMetadata ingClient ing updatedObjectMeta of
              (Inl err, ingClient') \<Rightarrow>
                (Some (''error patching Ingress '' @ Namespace (ing_ObjectMeta ing) @ ''/''
                       @ Name (ing_ObjectMeta ing) @ '': '' @ err), ingClient')
            | (Inr _, ingClient') \<Rightarrow> (None, ingClient'))
      else (None, ingClient))"

subsection \<open>Mutation layer and patch layer, Service\<close>

text \<open>
  The typed Service client. A call of \<open>Patch\<close> carries the namespace the client was
  obtained for, the object name, the patch type, the patch bytes and the subresource
  path; the context and the empty \<open>PatchOptions\<close> are left out. The client records the
  calls and answers through an oracle, as above.
\<close>

datatype PatchType = JSONPatchType | MergePatchType | StrategicMergePatchType | ApplyPatchType

type_synonym bytes = string

record PatchCall =
  pc_namespace :: string
  pc_name :: string
  pc_type :: PatchType
  pc_data :: bytes
  pc_subresources :: "string list"

record ('m, 'z) KubeClient =
  kc_answer :: "PatchCall list \<Rightarrow> PatchCall \<Rightarrow> error + ('m, 'z) Service_scheme"
  kc_calls :: "PatchCall list"

record ('m, 'z) ServiceInterface =
  si_client :: "('m, 'z) KubeClient"
  si_namespace :: string

definition Services :: "('m, 'z) KubeClient \<Rightarrow> string \<Rightarrow> ('m, 'z) ServiceInterface" where
  "Services kubeClient ns = \<lparr>si_client = kubeClient, si_namespace = ns\<rparr>"

definition Patch ::
  "('m, 'z) ServiceInterface \<Rightarrow> string \<Rightarrow> PatchType \<Rightarrow> bytes \<Rightarrow> string list
   \<Rightarrow> (error + ('m, 'z) Service_scheme) \<times> ('m, 'z) KubeClient" where
  "Patch sc name pt data subresources =
     (let call = \<lparr>pc_namespace = si_namespace sc, pc_name = name, pc_type = pt,
                  pc_data = data, pc_subresources = subresources\<rparr>;
          kubeClient = si_client sc
      in (kc_answer kubeClient (kc_calls kubeClient) call,
          kubeClient\<lparr>kc_calls := kc_calls kubeClient @ [call]\<rparr>))"

text \<open>
  \<open>json.Marshal\<close> and \<open>strategicpatch.CreateTwoWayMergePatch\<close> (with the schema object
  \<open>corev1.Service{}\<close> fixed) are library functions whose code is not at hand; both may
  return an error, and the code branches on it. They are parameters of the model.
\<close>

record ('m, 'z) Encoding =
  Marshal :: "('m, 'z) Service_scheme \<Rightarrow> error + bytes"
  CreateTwoWayMergePatch :: "bytes \<Rightarrow> bytes \<Rightarrow> error + bytes"

definition patchServiceFinalizer ::
  "('m, 'z) Encoding \<Rightarrow> ('m, 'z) ServiceInterface \<Rightarrow> ('m, 'z) Service_scheme
   \<Rightarrow> ('m, 'z) Service_scheme \<Rightarrow> error option \<times> ('m, 'z) KubeClient" where
  "patchServiceFinalizer enc sc oldSvc newSvc =
     (let svcKey = Namespace (svc_ObjectMeta oldSvc) @ ''/'' @ Name (svc_ObjectMeta oldSvc) in
      case Marshal enc oldSvc of
        Inl err \<Rightarrow>
          (Some (''failed to Marshal oldData for service '' @ svcKey @ '': '' @ err), si_client sc)
      | Inr oldData \<Rightarrow>
         (case Marshal enc newSvc of
            Inl err \<Rightarrow>
              (Some (''failed to Marshal newData for service '' @ svcKey @ '': '' @ err),
               si_client sc)
          | Inr newData \<Rightarrow>
             (case CreateTwoWayMergePatch enc oldData newData of
                Inl err \<Rightarrow>
                  (Some (''failed to create TwoWayMergePatch for service '' @ svcKey @ '': '' @ err),
                   si_client sc)
              | Inr patchBytes \<Rightarrow>
                 (case Patch sc (Name (svc_ObjectMeta oldSvc)) StrategicMergePatchType patchBytes
                         [''status''] of
                    (Inl err, kubeClient') \<Rightarrow> (Some err, kubeClient')
                  | (Inr _, kubeClient') \<Rightarrow> (None, kubeClient')))))"

definition EnsureServiceFinalizer ::
  "('m, 'z) Encoding \<Rightarrow> ('m, 'z) Service_scheme \<Rightarrow> string \<Rightarrow> ('m, 'z) KubeClient
   \<Rightarrow> error option \<times> ('m, 'z) KubeClient" where
  "EnsureServiceFinalizer enc service key kubeClient =
     (if HasGivenFinalizer (svc_ObjectMeta service) key then (None, kubeClient)
      else
        (let updated = DeepCopy service;
             updated = updated\<lparr>svc_ObjectMeta := (svc_ObjectMeta updated)
               \<lparr>Finalizers := Finalizers (svc_ObjectMeta updated) @ [key]\<rparr>\<rparr>
         in patchServiceFinalizer enc
              (Services kubeClient (Namespace (svc_ObjectMeta updated))) service updated))"

definition EnsureDeleteServiceFinalizer ::
  "('m, 'z) Encoding \<Rightarrow> ('m, 'z) Service_scheme \<Rightarrow> string \<Rightarrow> ('m, 'z) KubeClient
   \<Rightarrow> error option \<times> ('m, 'z) KubeClient" where
  "EnsureDeleteServiceFinalizer enc service key kubeClient =
     (if \<not> HasGivenFinalizer (svc_ObjectMeta service) key then (None, kubeClient)
      else
        (let updated = DeepCopy service;
             updated = updated\<lparr>svc_ObjectMeta := (svc_ObjectMeta updated)
               \<lparr>Finalizers := RemoveString (Finalizers (svc_ObjectMeta updated)) key None\<rparr>\<rparr>
         in patchServiceFinalizer enc
              (Services kubeClient (Namespace (svc_ObjectMeta updated))) service updated))"

section \<open>Heap level\<close>

text \<open>
  The operations take pointers: \<open>ing *v1beta1.Ingress\<close>, \<open>service *corev1.Service\<close>. The
  objects behind them usually sit in a shared informer cache, so it matters which cells
  an operation writes. Here a heap holds the object structs and the backing arrays of
  string slices; an address is an index into the respective list, and allocation
  appends a cell. A result \<open>None\<close> stands for the panic of dereferencing a pointer
  that refers to no object.

  A Go slice is a header of array, length and capacity, or \<open>nil\<close>. The header is copied
  with the struct that contains it, the array is shared.
\<close>

type_synonym addr = nat

datatype string_slice = NilSlice | Slice addr nat nat

text \<open>
  The structs as they lie in memory: \<open>ObjectMeta\<close> with the slice header in place of the
  list, and the object around it. Both object kinds have this shape. The remaining
  fields are again the extension parts; \<open>DeepCopy\<close> clones them, and the code never
  writes to them.
\<close>

record ObjectMetaH =
  mh_Name :: string
  mh_Namespace :: string
  mh_DeletionTimestamp :: "Time option"
  mh_Finalizers :: string_slice

record 'm ObjectH =
  oh_ObjectMeta :: "'m ObjectMetaH_scheme"

record ('m, 'z) heap =
  structs :: "('m, 'z) ObjectH_scheme list"
  arrays :: "string list list"

text \<open>The elements a slice header denotes in a heap.\<close>

definition slice_elems :: "('m, 'z) heap \<Rightarrow> string_slice \<Rightarrow> string list option" where
  "slice_elems h s =
     (case s of
        NilSlice \<Rightarrow> Some []
      | Slice a n c \<Rightarrow>
          if a < length (arrays h) \<and> n \<le> c \<and> c \<le> length (arrays h ! a)
          then Some (take n (arrays h ! a)) else None)"

text \<open>
  \<open>make([]string, n, cap)\<close> with given cell contents: a fresh array; the header has length
  \<open>n\<close> and the array's size as capacity.
\<close>

definition make_slice :: "('m, 'z) heap \<Rightarrow> string list \<Rightarrow> nat \<Rightarrow> string_slice \<times> ('m, 'z) heap" where
  "make_slice h cells n =
     (Slice (length (arrays h)) n (length cells), h\<lparr>arrays := arrays h @ [cells]\<rparr>)"

text \<open>
  The built-in \<open>append(s, x)\<close>. With spare capacity it writes the element into the
  existing array, in place, and returns a longer header on the same array; otherwise it
  allocates a larger array and copies. The Go runtime chooses the new capacity; the
  code never inspects a capacity, so any value above the new length gives the same
  behaviour, and the model takes twice the old length plus one, cells beyond the length
  holding the empty string.
\<close>

definition go_append ::
  "('m, 'z) heap \<Rightarrow> string_slice \<Rightarrow> string \<Rightarrow> (string_slice \<times> ('m, 'z) heap) option" where
  "go_append h s x =
     (case s of
        NilSlice \<Rightarrow> Some (make_slice h [x] 1)
      | Slice a n c \<Rightarrow>
          if a < length (arrays h) \<and> n \<le> c \<and> c \<le> length (arrays h ! a) then
            if n < c
            then Some (Slice a (n + 1) c, h\<lparr>arrays := (arrays h)[a := (arrays h ! a)[n := x]]\<rparr>)
            else Some (make_slice h (take n (arrays h ! a) @ [x] @ replicate n '''') (n + 1))
          else None)"

text \<open>
  What a by-value read of the metadata or of a whole object sees: the value-level
  record. \<open>json.Marshal\<close> and the patch layer read their arguments in this way and write
  nothing (section 5 of the spec, item b).
\<close>

definition read_meta :: "('m, 'z) heap \<Rightarrow> 'm ObjectMetaH_scheme \<Rightarrow> 'm ObjectMeta_scheme option" where
  "read_meta h mh =
     map_option
       (\<lambda>fs. \<lparr>Name = mh_Name mh, Namespace = mh_Namespace mh,
              DeletionTimestamp = mh_DeletionTimestamp mh, Finalizers = fs,
              \<dots> = ObjectMetaH.more mh\<rparr>)
       (slice_elems h (mh_Finalizers mh))"

definition read_ing :: "('m, 'z) heap \<Rightarrow> addr \<Rightarrow> ('m, 'z) Ingress_scheme option" where
  "read_ing h p =
     (if p < length (structs h)
      then map_option (\<lambda>m. \<lparr>ing_ObjectMeta = m, \<dots> = ObjectH.more (structs h ! p)\<rparr>)
             (read_meta h (oh_ObjectMeta (structs h ! p)))
      else None)"

definition read_svc :: "('m, 'z) heap \<Rightarrow> addr \<Rightarrow> ('m, 'z) Service_scheme option" where
  "read_svc h p =
     (if p < length (structs h)
      then map_option (\<lambda>m. \<lparr>svc_ObjectMeta = m, \<dots> = ObjectH.more (structs h ! p)\<rparr>)
             (read_meta h (oh_ObjectMeta (structs h ! p)))
      else None)"

text \<open>
  Modelled from the spec: the generated \<open>DeepCopy\<close> methods, a fully independent clone
  including the finalizer list (section 6). As in the generated code of the API
  packages, a \<open>nil\<close> slice stays \<open>nil\<close>, and any other slice is copied, by \<open>make\<close> with
  its length and \<open>copy\<close>, into a fresh array. \<open>ObjectMeta.DeepCopy\<close> yields a fresh
  metadata struct, which only the caller holds and which is kept as a local value here;
  \<open>Ingress.DeepCopy\<close> and \<open>Service.DeepCopy\<close> allocate a new object struct.
\<close>

definition DeepCopyMeta_h ::
  "('m, 'z) heap \<Rightarrow> 'm ObjectMetaH_scheme \<Rightarrow> ('m ObjectMetaH_scheme \<times> ('m, 'z) heap) option" where
  "DeepCopyMeta_h h mh =
     (case mh_Finalizers mh of
        NilSlice \<Rightarrow> Some (mh, h)
      | Slice a n c \<Rightarrow>
          do {
            xs \<leftarrow> slice_elems h (Slice a n c);
            let (out, h') = make_slice h xs n;
            Some (mh\<lparr>mh_Finalizers := out\<rparr>, h')
          })"

definition DeepCopy_h :: "('m, 'z) heap \<Rightarrow> addr \<Rightarrow> (addr \<times> ('m, 'z) heap) option" where
  "DeepCopy_h h p =
     (if p < length (structs h) then
        do {
          (mh, h') \<leftarrow> DeepCopyMeta_h h (oh_ObjectMeta (structs h ! p));
          Some (length (structs h'),
                h'\<lparr>structs := structs h' @ [(structs h ! p)\<lparr>oh_ObjectMeta := mh\<rparr>]\<rparr>)
        }
      else None)"

text \<open>
  \<open>slice.RemoveString\<close> on the heap: \<open>make([]string, 0)\<close>, then an \<open>append\<close> per kept item,
  and \<open>nil\<close> in place of an empty result. The \<open>range\<close> loop reads the items of its
  argument; they are read at the start, which is the same since the loop writes to the
  new slice only.
\<close>

fun RemoveString_loop_h ::
  "('m, 'z) heap \<Rightarrow> string list \<Rightarrow> string \<Rightarrow> (string \<Rightarrow> string) option \<Rightarrow> string_slice
   \<Rightarrow> (string_slice \<times> ('m, 'z) heap) option" where
  "RemoveString_loop_h h [] s modifier newSlice = Some (newSlice, h)"
| "RemoveString_loop_h h (item # rest) s modifier newSlice =
     (if item = s then RemoveString_loop_h h rest s modifier newSlice
      else if (case modifier of None \<Rightarrow> False | Some f \<Rightarrow> f item = s)
      then RemoveString_loop_h h rest s modifier newSlice
      else do {
        (newSlice', h') \<leftarrow> go_append h newSlice item;
        RemoveString_loop_h h' rest s modifier newSlice'
      })"

definition slice_len :: "string_slice \<Rightarrow> nat" where
  "slice_len s = (case s of NilSlice \<Rightarrow> 0 | Slice a n c \<Rightarrow> n)"

definition RemoveString_h ::
  "('m, 'z) heap \<Rightarrow> string_slice \<Rightarrow> string \<Rightarrow> (string \<Rightarrow> string) option
   \<Rightarrow> (string_slice \<times> ('m, 'z) heap) option" where
  "RemoveString_h h slice s modifier =
     do {
       items \<leftarrow> slice_elems h slice;
       let (newSlice, h0) = make_slice h [] 0;
       (newSlice, h') \<leftarrow> RemoveString_loop_h h0 items s modifier newSlice;
       Some (if slice_len newSlice = 0 then NilSlice else newSlice, h')
     }"

text \<open>
  The four operations with their pointer arguments. Each line follows the source:
  the copy, the decision on the by-value metadata of the argument, the \<open>append\<close> or
  \<open>RemoveString\<close> on the slice of the copy, the assignment to the field of the copy, and
  the call of the patch layer with the objects as they are read at that moment.
\<close>

definition EnsureFinalizer_h ::
  "('m, 'z) heap \<Rightarrow> addr \<Rightarrow> ('m, 'z) IngressInterface \<Rightarrow> string
   \<Rightarrow> ((error + addr) \<times> ('m, 'z) heap \<times> ('m, 'z) IngressInterface) option" where
  "EnsureFinalizer_h h ing ingClient finalizerKey =
     do {
       (updated, h) \<leftarrow> DeepCopy_h h ing;
       old \<leftarrow> read_ing h ing;
       if needToAddFinalizer (ing_ObjectMeta old) finalizerKey then
         do {
           (fs, h) \<leftarrow> go_append h (mh_Finalizers (oh_ObjectMeta (structs h ! updated))) finalizerKey;
           let h = h\<lparr>structs := (structs h)[updated := (structs h ! updated)
                     \<lparr>oh_ObjectMeta := (oh_ObjectMeta (structs h ! updated))\<lparr>mh_Finalizers := fs\<rparr>\<rparr>]\<rparr>;
           old \<leftarrow> read_ing h ing;
           new \<leftarrow> read_ing h updated;
           (case PatchIngressObjectMetadata ingClient old (ing_ObjectMeta new) of
              (Inl err, ingClient') \<Rightarrow>
                Some (Inl (''error patching Ingress '' @ Namespace (ing_ObjectMeta old) @ ''/''
                           @ Name (ing_ObjectMeta old) @ '': '' @ err), h, ingClient')
            | (Inr _, ingClient') \<Rightarrow> Some (Inr updated, h, ingClient'))
         }
       else Some (Inr updated, h, ingClient)
     }"

definition EnsureDeleteFinalizer_h ::
  "('m, 'z) heap \<Rightarrow> addr \<Rightarrow> ('m, 'z) IngressInterface \<Rightarrow> string
   \<Rightarrow> (error option \<times> ('m, 'z) heap \<times> ('m, 'z) IngressInterface) option" where
  "EnsureDeleteFinalizer_h h ing ingClient finalizerKey =
     do {
       old \<leftarrow> read_ing h ing;
       if HasGivenFinalizer (ing_ObjectMeta old) finalizerKey then
         do {
           (updatedObjectMeta, h) \<leftarrow> DeepCopyMeta_h h (oh_ObjectMeta (structs h ! ing));
           (fs, h) \<leftarrow> RemoveString_h h (mh_Finalizers updatedObjectMeta) finalizerKey None;
           let updatedObjectMeta = updatedObjectMeta\<lparr>mh_Finalizers := fs\<rparr>;
           old \<leftarrow> read_ing h ing;
           new \<leftarrow> read_meta h updatedObjectMeta;
           (case PatchIngressObjectMetadata ingClient old new of
              (Inl err, ingClient') \<Rightarrow>
                Some (Some (''error patching Ingress '' @ Namespace (ing_ObjectMeta old) @ ''/''
                            @ Name (ing_ObjectMeta old) @ '': '' @ err), h, ingClient')
            | (Inr _, ingClient') \<Rightarrow> Some (None, h, ingClient'))
         }
       else Some (None, h, ingClient)
     }"

definition EnsureServiceFinalizer_h ::
  "('m, 'z) Encoding \<Rightarrow> ('m, 'z) heap \<Rightarrow> addr \<Rightarrow> string \<Rightarrow> ('m, 'z) KubeClient
   \<Rightarrow> (error option \<times> ('m, 'z) heap \<times> ('m, 'z) KubeClient) option" where
  "EnsureServiceFinalizer_h enc h service key kubeClient =
     do {
       old \<leftarrow> read_svc h service;
       if HasGivenFinalizer (svc_ObjectMeta old) key then Some (None, h, kubeClient)
       else
         do {
           (updated, h) \<leftarrow> DeepCopy_h h service;
           (fs, h) \<leftarrow> go_append h (mh_Finalizers (oh_ObjectMeta (structs h ! updated))) key;
           let h = h\<lparr>structs := (structs h)[updated := (structs h ! updated)
                     \<lparr>oh_ObjectMeta := (oh_ObjectMeta (structs h ! updated))\<lparr>mh_Finalizers := fs\<rparr>\<rparr>]\<rparr>;
           old \<leftarrow> read_svc h service;
           new \<leftarrow> read_svc h updated;
           let (err, kubeClient') =
             patchServiceFinalizer enc (Services kubeClient (Namespace (svc_ObjectMeta new))) old new;
           Some (err, h, kubeClient')
         }
     }"

definition EnsureDeleteServiceFinalizer_h ::
  "('m, 'z) Encoding \<Rightarrow> ('m, 'z) heap \<Rightarrow> addr \<Rightarrow> string \<Rightarrow> ('m, 'z) KubeClient
   \<Rightarrow> (error option \<times> ('m, 'z) heap \<times> ('m, 'z) KubeClient) option" where
  "EnsureDeleteServiceFinalizer_h enc h service key kubeClient =
     do {
       old \<leftarrow> read_svc h service;
       if \<not> HasGivenFinalizer (svc_ObjectMeta old) key then Some (None, h, kubeClient)
       else
         do {
           (updated, h) \<leftarrow> DeepCopy_h h service;
           (fs, h) \<leftarrow> RemoveString_h h (mh_Finalizers (oh_ObjectMeta (structs h ! updated))) key None;
           let h = h\<lparr>structs := (structs h)[updated := (structs h ! updated)
                     \<lparr>oh_ObjectMeta := (oh_ObjectMeta (structs h ! updated))\<lparr>mh_Finalizers := fs\<rparr>\<rparr>]\<rparr>;
           old \<leftarrow> read_svc h service;
           new \<leftarrow> read_svc h updated;
           let (err, kubeClient') =
             patchServiceFinalizer enc (Services kubeClient (Namespace (svc_ObjectMeta new))) old new;
           Some (err, h, kubeClient')
         }
     }"

text \<open>
  \<open>heap_extends h h'\<close>: every struct and every array of \<open>h\<close> is in \<open>h'\<close> at the same address
  with the same contents; \<open>h'\<close> may have more cells. A slice is fresh for \<open>h\<close> when its
  array is not a cell of \<open>h\<close>.
\<close>

definition heap_extends :: "('m, 'z) heap \<Rightarrow> ('m, 'z) heap \<Rightarrow> bool" where
  "heap_extends h h' =
     (take (length (structs h)) (structs h') = structs h
      \<and> take (length (arrays h)) (arrays h') = arrays h)"

definition fresh_slice :: "('m, 'z) heap \<Rightarrow> string_slice \<Rightarrow> bool" where
  "fresh_slice h s = (case s of NilSlice \<Rightarrow> True | Slice a n c \<Rightarrow> length (arrays h) \<le> a)"


section \<open>Sample inputs\<close>

subsection \<open>Sample objects, clients and encoders\<close>

text \<open>
  Concrete inputs at which the statements below are evaluated: an object named
  \<open>default/web\<close> with a given finalizer list and deletion timestamp, a store that accepts
  every patch, one that rejects every patch, an encoder that renders an object as the
  concatenation of its finalizers, and one that cannot encode.
\<close>

definition sample_meta :: "string list \<Rightarrow> Time option \<Rightarrow> ObjectMeta" where
  "sample_meta fs dt = \<lparr>Name = ''web'', Namespace = ''default'', DeletionTimestamp = dt, Finalizers = fs\<rparr>"

definition sample_ing :: "string list \<Rightarrow> Time option \<Rightarrow> unit Ingress" where
  "sample_ing fs dt = \<lparr>ing_ObjectMeta = sample_meta fs dt\<rparr>"

definition sample_svc :: "string list \<Rightarrow> Time option \<Rightarrow> unit Service" where
  "sample_svc fs dt = \<lparr>svc_ObjectMeta = sample_meta fs dt\<rparr>"

definition accepting_ingress_client :: "(unit, unit) IngressInterface" where
  "accepting_ingress_client =
     \<lparr>ic_answer = (\<lambda>submitted (old, new). Inr (old\<lparr>ing_ObjectMeta := new\<rparr>)), ic_submitted = []\<rparr>"

definition rejecting_ingress_client :: "(unit, unit) IngressInterface" where
  "rejecting_ingress_client =
     \<lparr>ic_answer = (\<lambda>submitted patch. Inl ''conflict''), ic_submitted = []\<rparr>"

definition sample_encoding :: "(unit, unit) Encoding" where
  "sample_encoding =
     \<lparr>Marshal = (\<lambda>svc. Inr (concat (Finalizers (svc_ObjectMeta svc)))),
      CreateTwoWayMergePatch = (\<lambda>oldData newData. Inr (oldData @ ''>'' @ newData))\<rparr>"

definition failing_encoding :: "(unit, unit) Encoding" where
  "failing_encoding =
     \<lparr>Marshal = (\<lambda>svc. Inl ''unsupported value''),
      CreateTwoWayMergePatch = (\<lambda>oldData newData. Inr (oldData @ ''>'' @ newData))\<rparr>"

definition accepting_kube_client :: "(unit, unit) KubeClient" where
  "accepting_kube_client =
     \<lparr>kc_answer = (\<lambda>calls call. Inr (sample_svc [] None)), kc_calls = []\<rparr>"

definition once_patched_ingress_client :: "(unit, unit) IngressInterface" where
  "once_patched_ingress_client =
     accepting_ingress_client\<lparr>ic_submitted := [(sample_ing [] None, sample_meta [''F1''] None)]\<rparr>"

definition once_patched_kube_client :: "(unit, unit) KubeClient" where
  "once_patched_kube_client =
     accepting_kube_client\<lparr>kc_calls :=
       [\<lparr>pc_namespace = ''default'', pc_name = ''web'', pc_type = StrategicMergePatchType,
         pc_data = ''A>AB'', pc_subresources = [''status'']\<rparr>]\<rparr>"

text \<open>
  A heap with one object, whose finalizer slice has length 1 and capacity 2, and the
  heaps the operations leave behind.
\<close>

definition sample_meta_h :: "string_slice \<Rightarrow> ObjectMetaH" where
  "sample_meta_h fs =
     \<lparr>mh_Name = ''web'', mh_Namespace = ''default'', mh_DeletionTimestamp = None,
      mh_Finalizers = fs\<rparr>"

definition sample_heap :: "(unit, unit) heap" where
  "sample_heap =
     \<lparr>structs = [\<lparr>oh_ObjectMeta = sample_meta_h (Slice 0 1 2)\<rparr>], arrays = [[''A'', '''']]\<rparr>"

definition sample_heap_appended :: "(unit, unit) heap" where
  "sample_heap_appended =
     \<lparr>structs = [\<lparr>oh_ObjectMeta = sample_meta_h (Slice 0 1 2)\<rparr>,
                 \<lparr>oh_ObjectMeta = sample_meta_h (Slice 2 2 3)\<rparr>],
      arrays = [[''A'', ''''], [''A''], [''A'', ''B'', '''']]\<rparr>"

definition sample_heap_removed :: "(unit, unit) heap" where
  "sample_heap_removed =
     \<lparr>structs = [\<lparr>oh_ObjectMeta = sample_meta_h (Slice 0 1 2)\<rparr>],
      arrays = [[''A'', ''''], [''A''], []]\<rparr>"

definition sample_heap_removed_copy :: "(unit, unit) heap" where
  "sample_heap_removed_copy =
     \<lparr>structs = [\<lparr>oh_ObjectMeta = sample_meta_h (Slice 0 1 2)\<rparr>,
                 \<lparr>oh_ObjectMeta = sample_meta_h NilSlice\<rparr>],
      arrays = [[''A'', ''''], [''A''], []]\<rparr>"


lemmas samples = sample_meta_def sample_ing_def sample_svc_def accepting_ingress_client_def
  sample_encoding_def accepting_kube_client_def


section \<open>Properties\<close>

subsection \<open>String slices\<close>

lemma ContainsString_nil_modifier: "ContainsString xs s None = (s \<in> set xs)"
  by (induction xs) auto

lemma RemoveString_loop_nil_modifier:
  "RemoveString_loop xs s None acc = acc @ filter (\<lambda>item. item \<noteq> s) xs"
  by (induction xs arbitrary: acc) auto

lemma RemoveString_nil_modifier: "RemoveString xs s None = filter (\<lambda>item. item \<noteq> s) xs"
  by (simp add: RemoveString_def RemoveString_loop_nil_modifier Let_def)

subsection \<open>Predicates\<close>

text \<open>
  C2. For every metadata and token, \<open>HasGivenFinalizer\<close> is true exactly when the token
  is an element of \<open>Finalizers\<close>, compared as a whole string; the position does not
  matter: a token placed between any two parts of the list is found.
\<close>

theorem HasGivenFinalizer_iff_member:
  "HasGivenFinalizer m t = (t \<in> set (Finalizers m))
   \<and> HasGivenFinalizer (m\<lparr>Finalizers := front @ t # back\<rparr>) t"
  by (simp add: HasGivenFinalizer_def ContainsString_nil_modifier)

text \<open>
  C3. For every metadata, \<open>IsDeletionCandidate\<close> equals the conjunction of a set
  \<open>DeletionTimestamp\<close> and \<open>HasFinalizer\<close>, although the code forms the disjunction of
  the two per-token checks.
\<close>

theorem IsDeletionCandidate_eq_conj:
  "IsDeletionCandidate m = (DeletionTimestamp m \<noteq> None \<and> HasFinalizer m)"
  by (auto simp: IsDeletionCandidate_def IsDeletionCandidateForGivenFinalizer_def HasFinalizer_def)


subsection \<open>The operations, unfolded\<close>

lemma needToAddFinalizer_iff:
  "needToAddFinalizer m t = (DeletionTimestamp m = None \<and> t \<notin> set (Finalizers m))"
  by (simp add: needToAddFinalizer_def HasGivenFinalizer_def ContainsString_nil_modifier)

lemma HasGivenFinalizer_set: "HasGivenFinalizer m t = (t \<in> set (Finalizers m))"
  by (simp add: HasGivenFinalizer_def ContainsString_nil_modifier)

lemma EnsureFinalizer_unfold:
  "EnsureFinalizer ing ic t =
     (if DeletionTimestamp (ing_ObjectMeta ing) = None \<and> t \<notin> set (Finalizers (ing_ObjectMeta ing))
      then (case ic_answer ic (ic_submitted ic)
                   (ing, (ing_ObjectMeta ing)\<lparr>Finalizers := Finalizers (ing_ObjectMeta ing) @ [t]\<rparr>) of
              Inl err \<Rightarrow> Inl (''error patching Ingress '' @ Namespace (ing_ObjectMeta ing) @ ''/''
                      @ Name (ing_ObjectMeta ing) @ '': '' @ err)
            | Inr _ \<Rightarrow> Inr (ing\<lparr>ing_ObjectMeta := (ing_ObjectMeta ing)
                       \<lparr>Finalizers := Finalizers (ing_ObjectMeta ing) @ [t]\<rparr>\<rparr>),
            ic\<lparr>ic_submitted := ic_submitted ic
               @ [(ing, (ing_ObjectMeta ing)\<lparr>Finalizers := Finalizers (ing_ObjectMeta ing) @ [t]\<rparr>)]\<rparr>)
      else (Inr ing, ic))"
  by (simp add: EnsureFinalizer_def PatchIngressObjectMetadata_def DeepCopy_def Let_def
      needToAddFinalizer_iff split: sum.splits)

lemma EnsureDeleteFinalizer_unfold:
  "EnsureDeleteFinalizer ing ic t =
     (if t \<in> set (Finalizers (ing_ObjectMeta ing))
      then (case ic_answer ic (ic_submitted ic)
                   (ing, (ing_ObjectMeta ing)
                      \<lparr>Finalizers := filter (\<lambda>item. item \<noteq> t) (Finalizers (ing_ObjectMeta ing))\<rparr>) of
              Inl err \<Rightarrow> Some (''error patching Ingress '' @ Namespace (ing_ObjectMeta ing) @ ''/''
                      @ Name (ing_ObjectMeta ing) @ '': '' @ err)
            | Inr _ \<Rightarrow> None,
            ic\<lparr>ic_submitted := ic_submitted ic
               @ [(ing, (ing_ObjectMeta ing)
                     \<lparr>Finalizers := filter (\<lambda>item. item \<noteq> t) (Finalizers (ing_ObjectMeta ing))\<rparr>)]\<rparr>)
      else (None, ic))"
  by (simp add: EnsureDeleteFinalizer_def PatchIngressObjectMetadata_def DeepCopy_def Let_def
      HasGivenFinalizer_set RemoveString_nil_modifier split: sum.splits)

lemma patchServiceFinalizer_encoded:
  "Marshal enc oldSvc = Inr od \<Longrightarrow> Marshal enc newSvc = Inr nd \<Longrightarrow>
   CreateTwoWayMergePatch enc od nd = Inr p \<Longrightarrow>
   patchServiceFinalizer enc (Services kc ns) oldSvc newSvc =
     (case kc_answer kc (kc_calls kc)
             \<lparr>pc_namespace = ns, pc_name = Name (svc_ObjectMeta oldSvc),
              pc_type = StrategicMergePatchType, pc_data = p, pc_subresources = [''status'']\<rparr> of
        Inl err \<Rightarrow> Some err | Inr _ \<Rightarrow> None,
      kc\<lparr>kc_calls := kc_calls kc
         @ [\<lparr>pc_namespace = ns, pc_name = Name (svc_ObjectMeta oldSvc),
             pc_type = StrategicMergePatchType, pc_data = p, pc_subresources = [''status'']\<rparr>]\<rparr>)"
  by (simp add: patchServiceFinalizer_def Patch_def Services_def Let_def split: sum.splits)

text \<open>When the old snapshot cannot be encoded, the error comes back and the store is not called.\<close>

lemma patchServiceFinalizer_unencodable:
  "Marshal enc oldSvc = Inl err \<Longrightarrow>
   patchServiceFinalizer enc (Services kc ns) oldSvc newSvc =
     (Some (''failed to Marshal oldData for service '' @ Namespace (svc_ObjectMeta oldSvc) @ ''/''
            @ Name (svc_ObjectMeta oldSvc) @ '': '' @ err), kc)"
  by (simp add: patchServiceFinalizer_def Services_def)

lemma patchServiceFinalizer_calls:
  "snd (patchServiceFinalizer enc (Services kc ns) oldSvc newSvc) = kc
   \<or> (\<exists>od nd p. Marshal enc oldSvc = Inr od \<and> Marshal enc newSvc = Inr nd
        \<and> CreateTwoWayMergePatch enc od nd = Inr p
        \<and> kc_calls (snd (patchServiceFinalizer enc (Services kc ns) oldSvc newSvc)) =
            kc_calls kc
            @ [\<lparr>pc_namespace = ns, pc_name = Name (svc_ObjectMeta oldSvc),
                pc_type = StrategicMergePatchType, pc_data = p, pc_subresources = [''status'']\<rparr>])"
  by (simp add: patchServiceFinalizer_def Patch_def Services_def Let_def split: sum.splits)

lemma EnsureServiceFinalizer_unfold:
  "EnsureServiceFinalizer enc svc t kc =
     (if t \<in> set (Finalizers (svc_ObjectMeta svc)) then (None, kc)
      else patchServiceFinalizer enc (Services kc (Namespace (svc_ObjectMeta svc))) svc
             (svc\<lparr>svc_ObjectMeta := (svc_ObjectMeta svc)
                \<lparr>Finalizers := Finalizers (svc_ObjectMeta svc) @ [t]\<rparr>\<rparr>))"
  by (simp add: EnsureServiceFinalizer_def DeepCopy_def Let_def HasGivenFinalizer_set)

lemma EnsureDeleteServiceFinalizer_unfold:
  "EnsureDeleteServiceFinalizer enc svc t kc =
     (if t \<notin> set (Finalizers (svc_ObjectMeta svc)) then (None, kc)
      else patchServiceFinalizer enc (Services kc (Namespace (svc_ObjectMeta svc))) svc
             (svc\<lparr>svc_ObjectMeta := (svc_ObjectMeta svc)
                \<lparr>Finalizers := filter (\<lambda>item. item \<noteq> t) (Finalizers (svc_ObjectMeta svc))\<rparr>\<rparr>))"
  by (simp add: EnsureDeleteServiceFinalizer_def DeepCopy_def Let_def HasGivenFinalizer_set
      RemoveString_nil_modifier)

lemma EnsureDeleteServiceFinalizer_unencodable_sample:
  "EnsureDeleteServiceFinalizer failing_encoding (sample_svc [''A''] None) ''A''
     accepting_kube_client =
     (Some ''failed to Marshal oldData for service default/web: unsupported value'',
      accepting_kube_client)"
  by (simp add: EnsureDeleteServiceFinalizer_unfold patchServiceFinalizer_unencodable samples
      failing_encoding_def)

lemma EnsureFinalizer_success_cases:
  assumes "EnsureFinalizer ing ic t = (Inr ing', ic')"
  shows "(ing' = ing \<and> ic' = ic
          \<and> \<not> (DeletionTimestamp (ing_ObjectMeta ing) = None
                \<and> t \<notin> set (Finalizers (ing_ObjectMeta ing))))
         \<or> (ing' = ing\<lparr>ing_ObjectMeta := (ing_ObjectMeta ing)
                      \<lparr>Finalizers := Finalizers (ing_ObjectMeta ing) @ [t]\<rparr>\<rparr>
             \<and> ic' = ic\<lparr>ic_submitted := ic_submitted ic
                      @ [(ing, (ing_ObjectMeta ing)
                            \<lparr>Finalizers := Finalizers (ing_ObjectMeta ing) @ [t]\<rparr>)]\<rparr>
             \<and> DeletionTimestamp (ing_ObjectMeta ing) = None
             \<and> t \<notin> set (Finalizers (ing_ObjectMeta ing)))"
  using assms by (auto simp: EnsureFinalizer_unfold split: if_splits sum.splits)

lemma EnsureFinalizer_again:
  assumes "EnsureFinalizer ing ic t = (Inr ing', ic')"
  shows "EnsureFinalizer ing' ic' t = (Inr ing', ic')"
  using EnsureFinalizer_success_cases [OF assms]
  by (auto simp: EnsureFinalizer_unfold)

lemma EnsureFinalizer_at_most_one:
  assumes "EnsureFinalizer ing ic t = (r, ic')"
  shows "ic_submitted ic' = ic_submitted ic \<or> (\<exists>p. ic_submitted ic' = ic_submitted ic @ [p])"
  using assms by (auto simp: EnsureFinalizer_unfold split: if_splits)

lemma EnsureServiceFinalizer_again:
  assumes "EnsureServiceFinalizer enc svc t kc = (None, kc')"
  shows "EnsureServiceFinalizer enc
           (svc\<lparr>svc_ObjectMeta := (svc_ObjectMeta svc)
              \<lparr>Finalizers := (if t \<in> set (Finalizers (svc_ObjectMeta svc))
                              then Finalizers (svc_ObjectMeta svc)
                              else Finalizers (svc_ObjectMeta svc) @ [t])\<rparr>\<rparr>) t kc' = (None, kc')"
  by (simp add: EnsureServiceFinalizer_unfold)

lemma EnsureServiceFinalizer_success_cases:
  assumes "EnsureServiceFinalizer enc svc t kc = (None, kc')"
  shows "(t \<in> set (Finalizers (svc_ObjectMeta svc)) \<and> kc' = kc)
         \<or> (t \<notin> set (Finalizers (svc_ObjectMeta svc)) \<and>
             (\<exists>oldData newData patchBytes.
               Marshal enc svc = Inr oldData
               \<and> Marshal enc (svc\<lparr>svc_ObjectMeta := (svc_ObjectMeta svc)
                    \<lparr>Finalizers := Finalizers (svc_ObjectMeta svc) @ [t]\<rparr>\<rparr>) = Inr newData
               \<and> CreateTwoWayMergePatch enc oldData newData = Inr patchBytes
               \<and> kc_calls kc' =
                   kc_calls kc
                   @ [\<lparr>pc_namespace = Namespace (svc_ObjectMeta svc),
                       pc_name = Name (svc_ObjectMeta svc), pc_type = StrategicMergePatchType,
                       pc_data = patchBytes, pc_subresources = [''status'']\<rparr>]))"
proof (cases "t \<in> set (Finalizers (svc_ObjectMeta svc))")
  case True
  with assms show ?thesis by (simp add: EnsureServiceFinalizer_unfold)
next
  case False
  with assms have p: "patchServiceFinalizer enc (Services kc (Namespace (svc_ObjectMeta svc))) svc
             (svc\<lparr>svc_ObjectMeta := (svc_ObjectMeta svc)
                \<lparr>Finalizers := Finalizers (svc_ObjectMeta svc) @ [t]\<rparr>\<rparr>) = (None, kc')"
    by (simp add: EnsureServiceFinalizer_unfold)
  then show ?thesis using False
    by (auto simp: patchServiceFinalizer_def Patch_def Services_def Let_def
        split: sum.splits prod.splits)
qed


subsection \<open>The scenarios of section 8\<close>

text \<open>
  The five scenarios of the spec, run with a store that accepts every patch; in the
  fifth, the patch bytes are those of the sample encoder.
\<close>

lemma scenario_1:
  "EnsureFinalizer (sample_ing [] None) accepting_ingress_client ''F1'' =
     (Inr (sample_ing [''F1''] None),
      accepting_ingress_client\<lparr>ic_submitted := [(sample_ing [] None, sample_meta [''F1''] None)]\<rparr>)"
  by (simp add: EnsureFinalizer_unfold samples)

lemma scenario_2:
  "EnsureFinalizer (sample_ing [''F1''] None) accepting_ingress_client ''F1'' =
     (Inr (sample_ing [''F1''] None), accepting_ingress_client)"
  by (simp add: EnsureFinalizer_unfold samples)

lemma scenario_3:
  "EnsureDeleteFinalizer (sample_ing [''F1'', ''F2''] None) accepting_ingress_client ''F1'' =
     (None, accepting_ingress_client
        \<lparr>ic_submitted := [(sample_ing [''F1'', ''F2''] None, sample_meta [''F2''] None)]\<rparr>)"
  by (simp add: EnsureDeleteFinalizer_unfold samples)

lemma scenario_4:
  "EnsureDeleteFinalizer (sample_ing [] None) accepting_ingress_client ''F1'' =
     (None, accepting_ingress_client)"
  by (simp add: EnsureDeleteFinalizer_unfold samples)

lemma scenario_5:
  "EnsureServiceFinalizer sample_encoding (sample_svc [''A''] None) ''B'' accepting_kube_client =
     (None, once_patched_kube_client)
   \<and> EnsureDeleteServiceFinalizer sample_encoding (sample_svc [''A'', ''B''] None) ''A''
       once_patched_kube_client =
     (None, once_patched_kube_client\<lparr>kc_calls := kc_calls once_patched_kube_client
        @ [\<lparr>pc_namespace = ''default'', pc_name = ''web'', pc_type = StrategicMergePatchType,
            pc_data = ''AB>B'', pc_subresources = [''status'']\<rparr>]\<rparr>)"
  by (simp add: EnsureServiceFinalizer_unfold EnsureDeleteServiceFinalizer_unfold
      patchServiceFinalizer_encoded samples once_patched_kube_client_def)

subsection \<open>Claims about the mutation layer\<close>

text \<open>
  C1. For every Ingress and token: if the Ingress has no \<open>DeletionTimestamp\<close> and its
  \<open>Finalizers\<close> lack the token, \<open>EnsureFinalizer\<close> submits exactly one patch, whose old
  snapshot is the original and whose new metadata is the copy's with the token appended
  to the finalizer list; otherwise it submits nothing and returns a copy equal to the
  input. Hence the store receives exactly one more patch if and only if the condition
  holds.
\<close>

theorem EnsureFinalizer_patches_iff_needed:
  "(DeletionTimestamp (ing_ObjectMeta ing) = None \<and> t \<notin> set (Finalizers (ing_ObjectMeta ing)) \<longrightarrow>
      ic_submitted (snd (EnsureFinalizer ing ic t)) =
        ic_submitted ic
        @ [(ing, (ing_ObjectMeta ing)\<lparr>Finalizers := Finalizers (ing_ObjectMeta ing) @ [t]\<rparr>)])
   \<and> (\<not> (DeletionTimestamp (ing_ObjectMeta ing) = None
          \<and> t \<notin> set (Finalizers (ing_ObjectMeta ing))) \<longrightarrow>
      EnsureFinalizer ing ic t = (Inr ing, ic))
   \<and> ((length (ic_submitted (snd (EnsureFinalizer ing ic t))) = length (ic_submitted ic) + 1)
      = (DeletionTimestamp (ing_ObjectMeta ing) = None
         \<and> t \<notin> set (Finalizers (ing_ObjectMeta ing))))"
  by (simp add: EnsureFinalizer_unfold)

text \<open>
  At \<open>Finalizers = []\<close> the token \<open>F1\<close> is patched in; with the token present, or with a
  deletion timestamp, nothing is sent and the input comes back.
\<close>

theorem EnsureFinalizer_patches_iff_needed_witness:
  "ic_submitted (snd (EnsureFinalizer (sample_ing [] None) accepting_ingress_client ''F1'')) =
     [(sample_ing [] None, sample_meta [''F1''] None)]
   \<and> EnsureFinalizer (sample_ing [''F1''] None) accepting_ingress_client ''F1'' =
       (Inr (sample_ing [''F1''] None), accepting_ingress_client)
   \<and> EnsureFinalizer (sample_ing [] (Some 7)) accepting_ingress_client ''F1'' =
       (Inr (sample_ing [] (Some 7)), accepting_ingress_client)"
  using EnsureFinalizer_patches_iff_needed
      [of "sample_ing [] None" "''F1''" accepting_ingress_client]
    EnsureFinalizer_patches_iff_needed
      [of "sample_ing [''F1''] None" "''F1''" accepting_ingress_client]
    EnsureFinalizer_patches_iff_needed
      [of "sample_ing [] (Some 7)" "''F1''" accepting_ingress_client]
  by (simp add: samples)

text \<open>
  C7. \<open>EnsureFinalizer\<close> returns the deep copy whether or not it wrote to the store:
  the copy equal to the input when no patch was needed, and the copy carrying the token
  when the patch was accepted. When the submission fails, it returns the error
  \<open>error patching Ingress <namespace>/<name>: <store error>\<close>.
\<close>

theorem EnsureFinalizer_copy_or_wrapped_error:
  "(\<not> (DeletionTimestamp (ing_ObjectMeta ing) = None
        \<and> t \<notin> set (Finalizers (ing_ObjectMeta ing))) \<longrightarrow>
      fst (EnsureFinalizer ing ic t) = Inr ing)
   \<and> (DeletionTimestamp (ing_ObjectMeta ing) = None \<and> t \<notin> set (Finalizers (ing_ObjectMeta ing))
      \<and> ic_answer ic (ic_submitted ic)
           (ing, (ing_ObjectMeta ing)\<lparr>Finalizers := Finalizers (ing_ObjectMeta ing) @ [t]\<rparr>) = Inr patched \<longrightarrow>
      fst (EnsureFinalizer ing ic t) =
        Inr (ing\<lparr>ing_ObjectMeta := (ing_ObjectMeta ing)
               \<lparr>Finalizers := Finalizers (ing_ObjectMeta ing) @ [t]\<rparr>\<rparr>))
   \<and> (DeletionTimestamp (ing_ObjectMeta ing) = None \<and> t \<notin> set (Finalizers (ing_ObjectMeta ing))
      \<and> ic_answer ic (ic_submitted ic)
           (ing, (ing_ObjectMeta ing)\<lparr>Finalizers := Finalizers (ing_ObjectMeta ing) @ [t]\<rparr>) = Inl err \<longrightarrow>
      fst (EnsureFinalizer ing ic t) =
        Inl (''error patching Ingress '' @ Namespace (ing_ObjectMeta ing) @ ''/''
             @ Name (ing_ObjectMeta ing) @ '': '' @ err))"
  by (simp add: EnsureFinalizer_unfold)

text \<open>The three cases at the object \<open>default/web\<close>, the last with a store that answers \<open>conflict\<close>.\<close>

theorem EnsureFinalizer_copy_or_wrapped_error_witness:
  "fst (EnsureFinalizer (sample_ing [''F1''] None) rejecting_ingress_client ''F1'') =
     Inr (sample_ing [''F1''] None)
   \<and> fst (EnsureFinalizer (sample_ing [] None) accepting_ingress_client ''F1'') =
     Inr (sample_ing [''F1''] None)
   \<and> fst (EnsureFinalizer (sample_ing [] None) rejecting_ingress_client ''F1'') =
     Inl ''error patching Ingress default/web: conflict''"
  using EnsureFinalizer_copy_or_wrapped_error
      [of "sample_ing [''F1''] None" "''F1''" rejecting_ingress_client]
    EnsureFinalizer_copy_or_wrapped_error
      [of "sample_ing [] None" "''F1''" accepting_ingress_client "sample_ing [''F1''] None"]
    EnsureFinalizer_copy_or_wrapped_error
      [of "sample_ing [] None" "''F1''" rejecting_ingress_client _ "''conflict''"]
  by (simp add: samples rejecting_ingress_client_def)

text \<open>
  C6. Ensure-absent, for Ingress and Service. When the token is absent the operation
  succeeds and the client is as before: no write. When the token is present, the
  operation hands the original and a copy without any occurrence of the token to the
  patch layer, once. For an Ingress that is one submission through
  \<open>PatchIngressObjectMetadata\<close>. For a Service it is one call of \<open>patchServiceFinalizer\<close>,
  which issues exactly one \<open>Patch\<close> call to the store when both snapshots encode and the
  merge patch is computed (if an encoder fails, the error is returned before the store
  is reached, see \<open>patchServiceFinalizer_unencodable\<close>).
\<close>

theorem ensure_absent_noop_or_single_patch:
  "(t \<notin> set (Finalizers (ing_ObjectMeta ing)) \<longrightarrow> EnsureDeleteFinalizer ing ic t = (None, ic))
   \<and> (t \<in> set (Finalizers (ing_ObjectMeta ing)) \<longrightarrow>
        ic_submitted (snd (EnsureDeleteFinalizer ing ic t)) =
          ic_submitted ic
          @ [(ing, (ing_ObjectMeta ing)
                \<lparr>Finalizers := filter (\<lambda>item. item \<noteq> t) (Finalizers (ing_ObjectMeta ing))\<rparr>)])
   \<and> (t \<notin> set (Finalizers (svc_ObjectMeta svc)) \<longrightarrow>
        EnsureDeleteServiceFinalizer enc svc t kc = (None, kc))
   \<and> (t \<in> set (Finalizers (svc_ObjectMeta svc)) \<longrightarrow>
        EnsureDeleteServiceFinalizer enc svc t kc =
          patchServiceFinalizer enc (Services kc (Namespace (svc_ObjectMeta svc))) svc
            (svc\<lparr>svc_ObjectMeta := (svc_ObjectMeta svc)
               \<lparr>Finalizers := filter (\<lambda>item. item \<noteq> t) (Finalizers (svc_ObjectMeta svc))\<rparr>\<rparr>))
   \<and> (t \<in> set (Finalizers (svc_ObjectMeta svc))
      \<and> Marshal enc svc = Inr oldData
      \<and> Marshal enc (svc\<lparr>svc_ObjectMeta := (svc_ObjectMeta svc)
               \<lparr>Finalizers := filter (\<lambda>item. item \<noteq> t) (Finalizers (svc_ObjectMeta svc))\<rparr>\<rparr>)
          = Inr newData
      \<and> CreateTwoWayMergePatch enc oldData newData = Inr patchBytes \<longrightarrow>
        kc_calls (snd (EnsureDeleteServiceFinalizer enc svc t kc)) =
          kc_calls kc
          @ [\<lparr>pc_namespace = Namespace (svc_ObjectMeta svc), pc_name = Name (svc_ObjectMeta svc),
              pc_type = StrategicMergePatchType, pc_data = patchBytes,
              pc_subresources = [''status'']\<rparr>])
   \<and> t \<notin> set (filter (\<lambda>item. item \<noteq> t) fs)"
  by (simp add: EnsureDeleteFinalizer_unfold EnsureDeleteServiceFinalizer_unfold
      patchServiceFinalizer_encoded)

text \<open>
  Absent token: nothing happens. A token that occurs twice is removed at both places,
  and one patch goes out.
\<close>

theorem ensure_absent_noop_or_single_patch_witness:
  "EnsureDeleteFinalizer (sample_ing [] None) accepting_ingress_client ''F1'' =
     (None, accepting_ingress_client)
   \<and> ic_submitted (snd (EnsureDeleteFinalizer (sample_ing [''F1'', ''F2'', ''F1''] None)
        accepting_ingress_client ''F1'')) =
       [(sample_ing [''F1'', ''F2'', ''F1''] None, sample_meta [''F2''] None)]
   \<and> EnsureDeleteServiceFinalizer sample_encoding (sample_svc [''B''] None) ''F1''
        accepting_kube_client = (None, accepting_kube_client)
   \<and> kc_calls (snd (EnsureDeleteServiceFinalizer sample_encoding
        (sample_svc [''F1'', ''B''] None) ''F1'' accepting_kube_client)) =
       [\<lparr>pc_namespace = ''default'', pc_name = ''web'', pc_type = StrategicMergePatchType,
         pc_data = ''F1B>B'', pc_subresources = [''status'']\<rparr>]"
proof -
  note absent = ensure_absent_noop_or_single_patch [where t = "''F1''" and ing = "sample_ing [] None"
      and ic = accepting_ingress_client and svc = "sample_svc [''B''] None"
      and enc = sample_encoding and kc = accepting_kube_client and oldData = "''B''"
      and newData = "''B''" and patchBytes = "''B>B''" and fs = "[]"]
  note present = ensure_absent_noop_or_single_patch [where t = "''F1''" and ing = "sample_ing [''F1'', ''F2'', ''F1''] None"
      and ic = accepting_ingress_client and svc = "sample_svc [''F1'', ''B''] None"
      and enc = sample_encoding and kc = accepting_kube_client and oldData = "''F1B''"
      and newData = "''B''" and patchBytes = "''F1B>B''" and fs = "[''F1'']"]
  have "EnsureDeleteFinalizer (sample_ing [] None) accepting_ingress_client ''F1'' =
     (None, accepting_ingress_client)"
    using absent [THEN conjunct1] by (simp add: samples)
  moreover have "ic_submitted (snd (EnsureDeleteFinalizer (sample_ing [''F1'', ''F2'', ''F1''] None)
        accepting_ingress_client ''F1'')) =
       [(sample_ing [''F1'', ''F2'', ''F1''] None, sample_meta [''F2''] None)]"
    using present [THEN conjunct2, THEN conjunct1] by (simp add: samples)
  moreover have "EnsureDeleteServiceFinalizer sample_encoding (sample_svc [''B''] None) ''F1''
        accepting_kube_client = (None, accepting_kube_client)"
    using absent [THEN conjunct2, THEN conjunct2, THEN conjunct1] by (simp add: samples)
  moreover have "kc_calls (snd (EnsureDeleteServiceFinalizer sample_encoding
        (sample_svc [''F1'', ''B''] None) ''F1'' accepting_kube_client)) =
       [\<lparr>pc_namespace = ''default'', pc_name = ''web'', pc_type = StrategicMergePatchType,
         pc_data = ''F1B>B'', pc_subresources = [''status'']\<rparr>]"
    using present [THEN conjunct2, THEN conjunct2, THEN conjunct2, THEN conjunct2, THEN conjunct1]
    by (simp add: samples)
  ultimately show ?thesis by simp
qed

text \<open>
  C9. The Service operations return an error or \<open>nil\<close> only (their result type has no
  object), and they either leave the client as it was or add exactly one call: a
  \<open>Patch\<close> of type \<open>StrategicMergePatchType\<close> for the object's namespace and name, with the
  subresource path \<open>status\<close>, whose bytes are the two-way merge patch between the
  encodings of the whole original object and of the whole modified copy, metadata
  included.
\<close>

theorem service_writes_are_status_strategic_patches:
  "(snd (EnsureServiceFinalizer enc svc t kc) = kc
    \<or> (\<exists>oldData newData patchBytes.
          Marshal enc svc = Inr oldData
          \<and> Marshal enc (svc\<lparr>svc_ObjectMeta := (svc_ObjectMeta svc)
               \<lparr>Finalizers := Finalizers (svc_ObjectMeta svc) @ [t]\<rparr>\<rparr>) = Inr newData
          \<and> CreateTwoWayMergePatch enc oldData newData = Inr patchBytes
          \<and> kc_calls (snd (EnsureServiceFinalizer enc svc t kc)) =
              kc_calls kc
              @ [\<lparr>pc_namespace = Namespace (svc_ObjectMeta svc),
                  pc_name = Name (svc_ObjectMeta svc), pc_type = StrategicMergePatchType,
                  pc_data = patchBytes, pc_subresources = [''status'']\<rparr>]))
   \<and> (snd (EnsureDeleteServiceFinalizer enc svc t kc) = kc
    \<or> (\<exists>oldData newData patchBytes.
          Marshal enc svc = Inr oldData
          \<and> Marshal enc (svc\<lparr>svc_ObjectMeta := (svc_ObjectMeta svc)
               \<lparr>Finalizers := filter (\<lambda>item. item \<noteq> t) (Finalizers (svc_ObjectMeta svc))\<rparr>\<rparr>)
              = Inr newData
          \<and> CreateTwoWayMergePatch enc oldData newData = Inr patchBytes
          \<and> kc_calls (snd (EnsureDeleteServiceFinalizer enc svc t kc)) =
              kc_calls kc
              @ [\<lparr>pc_namespace = Namespace (svc_ObjectMeta svc),
                  pc_name = Name (svc_ObjectMeta svc), pc_type = StrategicMergePatchType,
                  pc_data = patchBytes, pc_subresources = [''status'']\<rparr>]))"
proof -
  let ?add = "svc\<lparr>svc_ObjectMeta := (svc_ObjectMeta svc)
               \<lparr>Finalizers := Finalizers (svc_ObjectMeta svc) @ [t]\<rparr>\<rparr>"
  let ?del = "svc\<lparr>svc_ObjectMeta := (svc_ObjectMeta svc)
               \<lparr>Finalizers := filter (\<lambda>item. item \<noteq> t) (Finalizers (svc_ObjectMeta svc))\<rparr>\<rparr>"
  note a = patchServiceFinalizer_calls [of enc kc "Namespace (svc_ObjectMeta svc)" svc ?add]
  note d = patchServiceFinalizer_calls [of enc kc "Namespace (svc_ObjectMeta svc)" svc ?del]
  have "?thesis" if "t \<in> set (Finalizers (svc_ObjectMeta svc))"
    using that d by (simp add: EnsureServiceFinalizer_unfold EnsureDeleteServiceFinalizer_unfold)
  moreover have "?thesis" if "t \<notin> set (Finalizers (svc_ObjectMeta svc))"
    using that a by (simp add: EnsureServiceFinalizer_unfold EnsureDeleteServiceFinalizer_unfold)
  ultimately show ?thesis by blast
qed

text \<open>
  C10. \<open>EnsureServiceFinalizer\<close> never looks at \<open>DeletionTimestamp\<close>: for every Service
  whose \<open>Finalizers\<close> lack the token, whatever its deletion timestamp, it hands the original
  and the copy with the token appended to \<open>patchServiceFinalizer\<close>, and with working
  encoders the store receives the patch. \<open>EnsureFinalizer\<close> on an Ingress with a deletion
  timestamp, by contrast, sends nothing and returns the input.
\<close>

theorem EnsureServiceFinalizer_ignores_DeletionTimestamp:
  "(t \<notin> set (Finalizers (svc_ObjectMeta svc))
    \<and> Marshal enc svc = Inr oldData
    \<and> Marshal enc (svc\<lparr>svc_ObjectMeta := (svc_ObjectMeta svc)
               \<lparr>Finalizers := Finalizers (svc_ObjectMeta svc) @ [t]\<rparr>\<rparr>) = Inr newData
    \<and> CreateTwoWayMergePatch enc oldData newData = Inr patchBytes \<longrightarrow>
      kc_calls (snd (EnsureServiceFinalizer enc svc t kc)) =
        kc_calls kc
        @ [\<lparr>pc_namespace = Namespace (svc_ObjectMeta svc), pc_name = Name (svc_ObjectMeta svc),
            pc_type = StrategicMergePatchType, pc_data = patchBytes,
            pc_subresources = [''status'']\<rparr>])
   \<and> (t \<notin> set (Finalizers (svc_ObjectMeta svc)) \<longrightarrow>
      EnsureServiceFinalizer enc svc t kc =
        patchServiceFinalizer enc (Services kc (Namespace (svc_ObjectMeta svc))) svc
          (svc\<lparr>svc_ObjectMeta := (svc_ObjectMeta svc)
             \<lparr>Finalizers := Finalizers (svc_ObjectMeta svc) @ [t]\<rparr>\<rparr>))
   \<and> (DeletionTimestamp (ing_ObjectMeta ing) \<noteq> None \<longrightarrow> EnsureFinalizer ing ic t = (Inr ing, ic))"
  by (simp add: EnsureServiceFinalizer_unfold patchServiceFinalizer_encoded EnsureFinalizer_unfold)

text \<open>A Service and an Ingress that are both being deleted (timestamp 7), token \<open>B\<close>.\<close>

theorem EnsureServiceFinalizer_ignores_DeletionTimestamp_witness:
  "kc_calls (snd (EnsureServiceFinalizer sample_encoding (sample_svc [''A''] (Some 7)) ''B''
      accepting_kube_client)) =
     [\<lparr>pc_namespace = ''default'', pc_name = ''web'', pc_type = StrategicMergePatchType,
       pc_data = ''A>AB'', pc_subresources = [''status'']\<rparr>]
   \<and> EnsureFinalizer (sample_ing [''A''] (Some 7)) accepting_ingress_client ''B'' =
       (Inr (sample_ing [''A''] (Some 7)), accepting_ingress_client)"
proof -
  note inst = EnsureServiceFinalizer_ignores_DeletionTimestamp [of "''B''" "sample_svc [''A''] (Some 7)" sample_encoding "''A''" "''AB''" "''A>AB''"
      accepting_kube_client "sample_ing [''A''] (Some 7)" accepting_ingress_client]
  from inst [THEN conjunct1] inst [THEN conjunct2, THEN conjunct2]
  show ?thesis by (simp add: samples)
qed

text \<open>
  C4. Ensure-present is idempotent. If \<open>EnsureFinalizer\<close> succeeds and returns an object,
  a second call on that object with the same token returns the same object and leaves
  the client as the first call left it; the first call submitted at most one patch. If
  \<open>EnsureServiceFinalizer\<close> succeeds, the Service then carries the list the call asked
  for (its old list if the token was present, else the list with the token appended,
  which is what the one patch sent encodes); a second call on that Service succeeds
  and leaves the client as the first call left it. In both cases the store receives at
  most one write in total, and none from the second call.
\<close>

theorem ensure_present_idempotent:
  "(EnsureFinalizer ing ic t = (Inr ing', ic') \<longrightarrow>
      EnsureFinalizer ing' ic' t = (Inr ing', ic')
      \<and> (ic_submitted ic' = ic_submitted ic \<or> (\<exists>p. ic_submitted ic' = ic_submitted ic @ [p])))
   \<and> (EnsureServiceFinalizer enc svc t kc = (None, kc') \<longrightarrow>
      EnsureServiceFinalizer enc
        (svc\<lparr>svc_ObjectMeta := (svc_ObjectMeta svc)
           \<lparr>Finalizers := (if t \<in> set (Finalizers (svc_ObjectMeta svc))
                           then Finalizers (svc_ObjectMeta svc)
                           else Finalizers (svc_ObjectMeta svc) @ [t])\<rparr>\<rparr>) t kc' = (None, kc')
      \<and> ((t \<in> set (Finalizers (svc_ObjectMeta svc)) \<and> kc' = kc)
         \<or> (t \<notin> set (Finalizers (svc_ObjectMeta svc)) \<and>
             (\<exists>oldData newData patchBytes.
               Marshal enc svc = Inr oldData
               \<and> Marshal enc (svc\<lparr>svc_ObjectMeta := (svc_ObjectMeta svc)
                    \<lparr>Finalizers := Finalizers (svc_ObjectMeta svc) @ [t]\<rparr>\<rparr>) = Inr newData
               \<and> CreateTwoWayMergePatch enc oldData newData = Inr patchBytes
               \<and> kc_calls kc' =
                   kc_calls kc
                   @ [\<lparr>pc_namespace = Namespace (svc_ObjectMeta svc),
                       pc_name = Name (svc_ObjectMeta svc), pc_type = StrategicMergePatchType,
                       pc_data = patchBytes, pc_subresources = [''status'']\<rparr>]))))"
  using EnsureFinalizer_again [of ing ic t ing' ic'] EnsureFinalizer_at_most_one [of ing ic t _ ic']
    EnsureServiceFinalizer_again [of enc svc t kc kc']
    EnsureServiceFinalizer_success_cases [of enc svc t kc kc']
  by blast

lemma first_EnsureFinalizer_sample:
  "EnsureFinalizer (sample_ing [] None) accepting_ingress_client ''F1'' =
     (Inr (sample_ing [''F1''] None), once_patched_ingress_client)"
  by (simp add: EnsureFinalizer_unfold samples once_patched_ingress_client_def)

lemma first_EnsureServiceFinalizer_sample:
  "EnsureServiceFinalizer sample_encoding (sample_svc [''A''] None) ''B'' accepting_kube_client =
     (None, once_patched_kube_client)"
  by (simp add: EnsureServiceFinalizer_unfold patchServiceFinalizer_encoded samples
      once_patched_kube_client_def)

text \<open>The first and the second call on an Ingress with no finalizer and on a Service with finalizer \<open>A\<close>.\<close>

theorem ensure_present_idempotent_witness:
  "EnsureFinalizer (sample_ing [] None) accepting_ingress_client ''F1'' =
     (Inr (sample_ing [''F1''] None), once_patched_ingress_client)
   \<and> EnsureFinalizer (sample_ing [''F1''] None) once_patched_ingress_client ''F1'' =
     (Inr (sample_ing [''F1''] None), once_patched_ingress_client)
   \<and> EnsureServiceFinalizer sample_encoding (sample_svc [''A''] None) ''B'' accepting_kube_client =
     (None, once_patched_kube_client)
   \<and> EnsureServiceFinalizer sample_encoding (sample_svc [''A'', ''B''] None) ''B''
       once_patched_kube_client = (None, once_patched_kube_client)"
proof -
  note inst = ensure_present_idempotent [where ing = "sample_ing [] None" and ic = accepting_ingress_client
      and t = "''F1''" and ing' = "sample_ing [''F1''] None" and ic' = once_patched_ingress_client]
  note inst' = ensure_present_idempotent [where enc = sample_encoding and svc = "sample_svc [''A''] None"
      and kc = accepting_kube_client and t = "''B''" and kc' = once_patched_kube_client]
  from inst [THEN conjunct1, rule_format, OF first_EnsureFinalizer_sample]
  have "EnsureFinalizer (sample_ing [''F1''] None) once_patched_ingress_client ''F1'' =
     (Inr (sample_ing [''F1''] None), once_patched_ingress_client)"
    by simp
  moreover from inst' [THEN conjunct2, rule_format, OF first_EnsureServiceFinalizer_sample]
  have "EnsureServiceFinalizer sample_encoding (sample_svc [''A'', ''B''] None) ''B''
       once_patched_kube_client = (None, once_patched_kube_client)"
    by (simp add: sample_svc_def sample_meta_def)
  ultimately show ?thesis
    using first_EnsureFinalizer_sample first_EnsureServiceFinalizer_sample by simp
qed

text \<open>
  C5 as stated, for every resource and token, fails where the resource has the token
  from the start. With \<open>Finalizers = [F1]\<close>, ensure-present of \<open>F1\<close> changes nothing, and
  ensure-absent then patches the list to the empty one: the original list is not
  restored.
\<close>

theorem ensure_present_then_absent_drops_present_token:
  "EnsureFinalizer (sample_ing [''F1''] None) accepting_ingress_client ''F1'' =
     (Inr (sample_ing [''F1''] None), accepting_ingress_client)
   \<and> EnsureDeleteFinalizer (sample_ing [''F1''] None) accepting_ingress_client ''F1'' =
     (None, accepting_ingress_client
        \<lparr>ic_submitted := [(sample_ing [''F1''] None, sample_meta [] None)]\<rparr>)
   \<and> set (Finalizers (sample_meta [] None))
       \<noteq> set (Finalizers (ing_ObjectMeta (sample_ing [''F1''] None)))"
  by (simp add: EnsureFinalizer_unfold EnsureDeleteFinalizer_unfold samples)

text \<open>
  C5, amended. When the token is not in the original finalizer list, a successful
  ensure-present followed by ensure-absent with the same token leaves the original
  finalizers: either nothing is patched and the list is the original one (the Ingress is
  being deleted, so that nothing was added), or the patch that ensure-absent submits
  asks for a list with the elements of the original one. When the token is in the
  original list, the patch asks for the original elements without the token.
\<close>

theorem ensure_present_then_absent_restores:
  "(t \<notin> set (Finalizers (ing_ObjectMeta ing)) \<and> EnsureFinalizer ing ic t = (Inr ing', ic') \<longrightarrow>
      (EnsureDeleteFinalizer ing' ic' t = (None, ic')
         \<and> set (Finalizers (ing_ObjectMeta ing')) = set (Finalizers (ing_ObjectMeta ing)))
      \<or> (\<exists>new. ic_submitted (snd (EnsureDeleteFinalizer ing' ic' t)) = ic_submitted ic' @ [(ing', new)]
            \<and> set (Finalizers new) = set (Finalizers (ing_ObjectMeta ing))))
   \<and> (t \<in> set (Finalizers (ing_ObjectMeta ing)) \<and> EnsureFinalizer ing ic t = (Inr ing', ic') \<longrightarrow>
      (\<exists>new. ic_submitted (snd (EnsureDeleteFinalizer ing' ic' t)) = ic_submitted ic' @ [(ing', new)]
            \<and> set (Finalizers new) = set (Finalizers (ing_ObjectMeta ing)) - {t}))"
proof (intro conjI impI)
  assume a: "t \<notin> set (Finalizers (ing_ObjectMeta ing)) \<and> EnsureFinalizer ing ic t = (Inr ing', ic')"
  have keep: "filter (\<lambda>item. item \<noteq> t) (Finalizers (ing_ObjectMeta ing)) = Finalizers (ing_ObjectMeta ing)"
    using a by (auto simp: filter_id_conv)
  from a EnsureFinalizer_success_cases [of ing ic t ing' ic']
  show "(EnsureDeleteFinalizer ing' ic' t = (None, ic')
         \<and> set (Finalizers (ing_ObjectMeta ing')) = set (Finalizers (ing_ObjectMeta ing)))
      \<or> (\<exists>new. ic_submitted (snd (EnsureDeleteFinalizer ing' ic' t)) = ic_submitted ic' @ [(ing', new)]
            \<and> set (Finalizers new) = set (Finalizers (ing_ObjectMeta ing)))"
    by (auto simp: EnsureDeleteFinalizer_unfold keep)
next
  assume a: "t \<in> set (Finalizers (ing_ObjectMeta ing)) \<and> EnsureFinalizer ing ic t = (Inr ing', ic')"
  from a EnsureFinalizer_success_cases [of ing ic t ing' ic']
  show "\<exists>new. ic_submitted (snd (EnsureDeleteFinalizer ing' ic' t)) = ic_submitted ic' @ [(ing', new)]
            \<and> set (Finalizers new) = set (Finalizers (ing_ObjectMeta ing)) - {t}"
    by (auto simp: EnsureDeleteFinalizer_unfold)
qed

text \<open>From \<open>[]\<close> to \<open>[F1]\<close> and back.\<close>

theorem ensure_present_then_absent_restores_witness:
  "EnsureFinalizer (sample_ing [] None) accepting_ingress_client ''F1'' =
     (Inr (sample_ing [''F1''] None), once_patched_ingress_client)
   \<and> (\<exists>new. ic_submitted (snd (EnsureDeleteFinalizer (sample_ing [''F1''] None)
                 once_patched_ingress_client ''F1'')) =
          ic_submitted once_patched_ingress_client @ [(sample_ing [''F1''] None, new)]
        \<and> set (Finalizers new) = set (Finalizers (ing_ObjectMeta (sample_ing [] None))))"
proof -
  have absent: "''F1'' \<notin> set (Finalizers (ing_ObjectMeta (sample_ing [] None)))"
    by (simp add: samples)
  have changed: "EnsureDeleteFinalizer (sample_ing [''F1''] None) once_patched_ingress_client ''F1''
      \<noteq> (None, once_patched_ingress_client)"
    by (simp add: EnsureDeleteFinalizer_unfold samples once_patched_ingress_client_def)
  from ensure_present_then_absent_restores [where ing = "sample_ing [] None" and ic = accepting_ingress_client and t = "''F1''"
      and ing' = "sample_ing [''F1''] None" and ic' = once_patched_ingress_client,
      THEN conjunct1, rule_format, OF conjI [OF absent first_EnsureFinalizer_sample]] changed
  show ?thesis using first_EnsureFinalizer_sample by blast
qed


section \<open>Properties of the heap level\<close>

subsection \<open>Heaps that extend one another\<close>

lemma heap_extends_refl: "heap_extends h h"
  by (simp add: heap_extends_def)

lemma take_prefix_length:
  assumes "take (length xs) ys = xs"
  shows "length xs \<le> length ys"
proof -
  have "length (take (length xs) ys) = length xs" using assms by simp
  then show ?thesis by simp
qed

lemma take_prefix_trans:
  assumes "take (length xs) ys = xs" "take (length ys) zs = ys"
  shows "take (length xs) zs = xs"
proof -
  have le: "length xs \<le> length ys"
    using assms(1) by (rule take_prefix_length)
  have "take (length xs) zs = take (length xs) (take (length ys) zs)"
    using le by (simp add: min_absorb1)
  then show ?thesis using assms by simp
qed

lemma heap_extends_trans:
  "heap_extends h1 h2 \<Longrightarrow> heap_extends h2 h3 \<Longrightarrow> heap_extends h1 h3"
  unfolding heap_extends_def by (blast intro: take_prefix_trans)

lemma heap_extends_lengths:
  assumes "heap_extends h h'"
  shows "length (structs h) \<le> length (structs h')" "length (arrays h) \<le> length (arrays h')"
  using assms unfolding heap_extends_def by (simp_all add: take_prefix_length)

lemma heap_extends_nth:
  assumes "heap_extends h h'"
  shows "p < length (structs h) \<Longrightarrow> structs h' ! p = structs h ! p"
    and "a < length (arrays h) \<Longrightarrow> arrays h' ! a = arrays h ! a"
  using assms unfolding heap_extends_def by (metis nth_take)+

lemma fresh_slice_mono:
  "heap_extends h0 h \<Longrightarrow> fresh_slice h s \<Longrightarrow> fresh_slice h0 s"
  using heap_extends_lengths(2) [of h0 h] by (auto simp: fresh_slice_def split: string_slice.splits)

subsection \<open>Allocation, append and copies write to fresh cells only\<close>

lemma make_slice_extends:
  "make_slice h cells n = (s, h') \<Longrightarrow> heap_extends h h' \<and> fresh_slice h s"
  by (auto simp: make_slice_def heap_extends_def fresh_slice_def)

lemma go_append_fresh:
  assumes "go_append h s x = Some (s', h')" "heap_extends h0 h" "fresh_slice h0 s"
  shows "heap_extends h0 h' \<and> fresh_slice h0 s'"
proof (cases s)
  case NilSlice
  with assms(1) have "make_slice h [x] 1 = (s', h')" by (simp add: go_append_def)
  from make_slice_extends [OF this] assms(2) show ?thesis
    by (blast intro: heap_extends_trans fresh_slice_mono)
next
  case (Slice a n c)
  with assms(3) have a: "length (arrays h0) \<le> a" by (simp add: fresh_slice_def)
  show ?thesis
  proof (cases "n < c")
    case True
    with assms(1) Slice have eq: "s' = Slice a (n + 1) c"
      "h' = h\<lparr>arrays := (arrays h)[a := (arrays h ! a)[n := x]]\<rparr>"
      by (auto simp: go_append_def split: if_splits)
    have "heap_extends h0 h'"
      using assms(2) a unfolding heap_extends_def eq by simp
    then show ?thesis using a by (simp add: eq fresh_slice_def)
  next
    case False
    with assms(1) Slice
    have "make_slice h (take n (arrays h ! a) @ [x] @ replicate n '''') (n + 1) = (s', h')"
      by (auto simp: go_append_def split: if_splits)
    from make_slice_extends [OF this] assms(2) show ?thesis
      by (blast intro: heap_extends_trans fresh_slice_mono)
  qed
qed

lemma DeepCopyMeta_h_extends:
  assumes "DeepCopyMeta_h h mh = Some (mh', h')"
  shows "heap_extends h h'"
    and "mh_Finalizers mh = NilSlice \<Longrightarrow> mh_Finalizers mh' = NilSlice"
    and "mh_Finalizers mh \<noteq> NilSlice \<Longrightarrow> fresh_slice h (mh_Finalizers mh')"
  using assms
  by (auto simp: DeepCopyMeta_h_def heap_extends_refl Let_def
      split: string_slice.splits Option.bind_splits prod.splits dest: make_slice_extends)

lemma DeepCopyMeta_h_fresh:
  assumes "DeepCopyMeta_h h mh = Some (mh', h')"
  shows "fresh_slice h (mh_Finalizers mh')"
  using DeepCopyMeta_h_extends(2,3) [OF assms] by (cases "mh_Finalizers mh") (auto simp: fresh_slice_def)

lemma DeepCopy_h_extends:
  assumes "DeepCopy_h h p = Some (q, h')"
  shows "heap_extends h h'" "length (structs h) \<le> q" "q < length (structs h')"
    "fresh_slice h (mh_Finalizers (oh_ObjectMeta (structs h' ! q)))"
proof -
  from assms obtain mh h1 where
    m: "DeepCopyMeta_h h (oh_ObjectMeta (structs h ! p)) = Some (mh, h1)"
    and q: "q = length (structs h1)"
    and h': "h' = h1\<lparr>structs := structs h1 @ [(structs h ! p)\<lparr>oh_ObjectMeta := mh\<rparr>]\<rparr>"
    by (auto simp: DeepCopy_h_def split: if_splits Option.bind_splits)
  have e: "heap_extends h h1" by (rule DeepCopyMeta_h_extends(1) [OF m])
  have "heap_extends h1 h'" by (simp add: h' heap_extends_def)
  with e show "heap_extends h h'" by (rule heap_extends_trans)
  show "length (structs h) \<le> q" using heap_extends_lengths(1) [OF e] q by simp
  show "q < length (structs h')" by (simp add: q h')
  show "fresh_slice h (mh_Finalizers (oh_ObjectMeta (structs h' ! q)))"
    using DeepCopyMeta_h_fresh [OF m] by (simp add: q h')
qed

lemma struct_update_extends:
  assumes "heap_extends h0 h" "length (structs h0) \<le> q"
  shows "heap_extends h0 (h\<lparr>structs := (structs h)[q := v]\<rparr>)"
  using assms unfolding heap_extends_def by simp

lemma RemoveString_loop_h_fresh:
  assumes "RemoveString_loop_h h items s modifier newSlice = Some (out, h')"
    "heap_extends h0 h" "fresh_slice h0 newSlice"
  shows "heap_extends h0 h' \<and> fresh_slice h0 out"
  using assms
proof (induction h items s modifier newSlice rule: RemoveString_loop_h.induct)
  case (1 h s modifier newSlice)
  then show ?case by simp
next
  case (2 h item rest s modifier newSlice)
  show ?case
  proof (cases "item = s \<or> (case modifier of None \<Rightarrow> False | Some f \<Rightarrow> f item = s)")
    case True
    with "2.prems" "2.IH"(1,2) show ?thesis by (auto split: if_splits)
  next
    case False
    with "2.prems"(1) obtain ns h1 where
      a: "go_append h newSlice item = Some (ns, h1)"
      and r: "RemoveString_loop_h h1 rest s modifier ns = Some (out, h')"
      by (auto split: Option.bind_splits)
    from go_append_fresh [OF a "2.prems"(2,3)] have "heap_extends h0 h1" "fresh_slice h0 ns" by auto
    with "2.IH"(3) [of "(ns, h1)" ns h1] False a r show ?thesis by auto
  qed
qed

lemma RemoveString_h_extends:
  assumes "RemoveString_h h slice s modifier = Some (out, h')"
  shows "heap_extends h h'"
proof -
  from assms obtain items ns h0 out0 where
    m: "make_slice h [] 0 = (ns, h0)"
    and l: "RemoveString_loop_h h0 items s modifier ns = Some (out0, h')"
    by (auto simp: RemoveString_h_def Let_def split: Option.bind_splits prod.splits)
  from make_slice_extends [OF m] RemoveString_loop_h_fresh [OF l] show ?thesis by blast
qed

subsection \<open>Reading through an old pointer in an extended heap\<close>

lemma slice_elems_extends:
  assumes "heap_extends h h'" "slice_elems h s = Some xs"
  shows "slice_elems h' s = Some xs"
  using assms heap_extends_lengths(2) [OF assms(1)] heap_extends_nth(2) [OF assms(1)]
  by (auto simp: slice_elems_def split: string_slice.splits if_splits)

lemma read_meta_extends:
  assumes "heap_extends h h'" "read_meta h mh = Some m"
  shows "read_meta h' mh = Some m"
  using assms slice_elems_extends [OF assms(1)] by (auto simp: read_meta_def)

lemma read_ing_extends:
  assumes "heap_extends h h'" "read_ing h p = Some ing"
  shows "read_ing h' p = Some ing"
  using assms read_meta_extends [OF assms(1)] heap_extends_lengths(1) [OF assms(1)]
    heap_extends_nth(1) [OF assms(1)]
  by (auto simp: read_ing_def split: if_splits)

lemma read_svc_extends:
  assumes "heap_extends h h'" "read_svc h p = Some svc"
  shows "read_svc h' p = Some svc"
  using assms read_meta_extends [OF assms(1)] heap_extends_lengths(1) [OF assms(1)]
    heap_extends_nth(1) [OF assms(1)]
  by (auto simp: read_svc_def split: if_splits)

subsection \<open>The operations extend the heap\<close>

lemma DeepCopy_h_valid:
  assumes "DeepCopy_h h p = Some (q, h')"
  shows "\<exists>ing. read_ing h p = Some ing" "\<exists>svc. read_svc h p = Some svc"
  using assms
  by (auto simp: DeepCopy_h_def DeepCopyMeta_h_def read_ing_def read_svc_def read_meta_def
      slice_elems_def split: if_splits Option.bind_splits string_slice.splits)

lemma append_to_copy_extends:
  assumes d: "DeepCopy_h h p = Some (q, h1)"
    and a: "go_append h1 (mh_Finalizers (oh_ObjectMeta (structs h1 ! q))) key = Some (fs, h2)"
  shows "heap_extends h (h2\<lparr>structs := (structs h2)[q := v]\<rparr>)"
proof -
  note c = DeepCopy_h_extends [OF d]
  from go_append_fresh [OF a c(1) c(4)] have "heap_extends h h2" by simp
  then show ?thesis using c(2) by (rule struct_update_extends)
qed

lemma remove_from_copy_extends:
  assumes d: "DeepCopy_h h p = Some (q, h1)"
    and a: "RemoveString_h h1 s key modifier = Some (fs, h2)"
  shows "heap_extends h (h2\<lparr>structs := (structs h2)[q := v]\<rparr>)"
proof -
  note c = DeepCopy_h_extends [OF d]
  from c(1) RemoveString_h_extends [OF a] have "heap_extends h h2" by (rule heap_extends_trans)
  then show ?thesis using c(2) by (rule struct_update_extends)
qed

lemma EnsureFinalizer_h_extends:
  assumes "EnsureFinalizer_h h ing ic key = Some (r, h', ic')"
  shows "heap_extends h h'" "\<exists>x. read_ing h ing = Some x"
proof -
  from assms obtain q h1 where d: "DeepCopy_h h ing = Some (q, h1)"
    by (auto simp: EnsureFinalizer_h_def split: Option.bind_splits)
  show "\<exists>x. read_ing h ing = Some x" by (rule DeepCopy_h_valid(1) [OF d])
  show "heap_extends h h'"
    using assms d DeepCopy_h_extends(1) [OF d] append_to_copy_extends [OF d]
    by (auto simp: EnsureFinalizer_h_def Let_def
        split: Option.bind_splits if_splits prod.splits sum.splits)
qed

lemma EnsureServiceFinalizer_h_extends:
  assumes "EnsureServiceFinalizer_h enc h service key kc = Some (r, h', kc')"
  shows "heap_extends h h'" "\<exists>x. read_svc h service = Some x"
proof -
  from assms show "\<exists>x. read_svc h service = Some x"
    by (auto simp: EnsureServiceFinalizer_h_def split: Option.bind_splits)
  show "heap_extends h h'"
    using assms append_to_copy_extends [of h service]
    by (auto simp: EnsureServiceFinalizer_h_def Let_def heap_extends_refl
        split: Option.bind_splits if_splits prod.splits)
qed

lemma EnsureDeleteServiceFinalizer_h_extends:
  assumes "EnsureDeleteServiceFinalizer_h enc h service key kc = Some (r, h', kc')"
  shows "heap_extends h h'" "\<exists>x. read_svc h service = Some x"
proof -
  from assms show "\<exists>x. read_svc h service = Some x"
    by (auto simp: EnsureDeleteServiceFinalizer_h_def split: Option.bind_splits)
  show "heap_extends h h'"
    using assms remove_from_copy_extends [of h service]
    by (auto simp: EnsureDeleteServiceFinalizer_h_def Let_def heap_extends_refl
        split: Option.bind_splits if_splits prod.splits)
qed

lemma EnsureDeleteFinalizer_h_extends:
  assumes "EnsureDeleteFinalizer_h h ing ic key = Some (r, h', ic')"
  shows "heap_extends h h'" "\<exists>x. read_ing h ing = Some x"
proof -
  from assms show "\<exists>x. read_ing h ing = Some x"
    by (auto simp: EnsureDeleteFinalizer_h_def split: Option.bind_splits)
  have "heap_extends h h2"
    if "DeepCopyMeta_h h mh = Some (mh', h1)" "RemoveString_h h1 s key None = Some (fs, h2)"
    for mh mh' h1 s fs h2
    using DeepCopyMeta_h_extends(1) [OF that(1)] RemoveString_h_extends [OF that(2)]
    by (rule heap_extends_trans)
  then show "heap_extends h h'"
    using assms
    by (auto simp: EnsureDeleteFinalizer_h_def Let_def heap_extends_refl
        split: Option.bind_splits if_splits prod.splits sum.splits)
qed


subsection \<open>The heap operations compute the list operations\<close>

text \<open>
  \<open>append\<close> on a slice that denotes \<open>xs\<close> yields a slice that denotes \<open>xs @ [x]\<close>, a deep
  copy denotes what the original denotes, and \<open>RemoveString\<close> on the heap yields a slice
  that denotes the result of \<open>RemoveString\<close> on lists. None of them fails on a slice that
  denotes a list.
\<close>

lemma go_append_elems:
  assumes "slice_elems h s = Some xs"
  shows "\<exists>s' h'. go_append h s x = Some (s', h') \<and> slice_elems h' s' = Some (xs @ [x])"
proof (cases s)
  case NilSlice
  with assms show ?thesis
    by (simp add: go_append_def make_slice_def slice_elems_def)
next
  case (Slice a n c)
  with assms have v: "a < length (arrays h)" "n \<le> c" "c \<le> length (arrays h ! a)"
    and xs: "xs = take n (arrays h ! a)"
    by (auto simp: slice_elems_def split: if_splits)
  show ?thesis
  proof (cases "n < c")
    case True
    then have "n < length (arrays h ! a)" using v by simp
    then have "take (Suc n) ((arrays h ! a)[n := x]) = take n (arrays h ! a) @ [x]"
      by (simp add: take_Suc_conv_app_nth)
    with True v show ?thesis
      by (simp add: go_append_def Slice slice_elems_def xs)
  next
    case False
    with v have "n = c" by simp
    with v show ?thesis
      by (simp add: go_append_def Slice slice_elems_def make_slice_def xs nth_append)
  qed
qed

lemma slice_elems_structs_update [simp]:
  "slice_elems (h\<lparr>structs := ss\<rparr>) s = slice_elems h s"
  by (cases s) (simp_all add: slice_elems_def)

lemma read_meta_structs_update [simp]:
  "read_meta (h\<lparr>structs := ss\<rparr>) mh = read_meta h mh"
  by (simp add: read_meta_def)

lemma DeepCopyMeta_h_read:
  assumes "read_meta h mh = Some m"
  shows "\<exists>mh' h'. DeepCopyMeta_h h mh = Some (mh', h') \<and> read_meta h' mh' = Some m
           \<and> ObjectMetaH.more mh' = ObjectMetaH.more mh"
proof (cases "mh_Finalizers mh")
  case NilSlice
  with assms show ?thesis by (simp add: DeepCopyMeta_h_def)
next
  case (Slice a n c)
  with assms show ?thesis
    by (auto simp: DeepCopyMeta_h_def read_meta_def slice_elems_def make_slice_def nth_append
        split: if_splits)
qed

lemma DeepCopy_h_read_ing:
  assumes "read_ing h p = Some ing"
  shows "\<exists>q h'. DeepCopy_h h p = Some (q, h') \<and> read_ing h' q = Some ing"
proof -
  from assms have p: "p < length (structs h)"
    and "\<exists>m. read_meta h (oh_ObjectMeta (structs h ! p)) = Some m
          \<and> ing = \<lparr>ing_ObjectMeta = m, \<dots> = ObjectH.more (structs h ! p)\<rparr>"
    by (auto simp: read_ing_def split: if_splits)
  then obtain m where m: "read_meta h (oh_ObjectMeta (structs h ! p)) = Some m"
    and ing: "ing = \<lparr>ing_ObjectMeta = m, \<dots> = ObjectH.more (structs h ! p)\<rparr>" by blast
  from DeepCopyMeta_h_read [OF m] obtain mh' h1 where
    d: "DeepCopyMeta_h h (oh_ObjectMeta (structs h ! p)) = Some (mh', h1)"
    and r: "read_meta h1 mh' = Some m" by blast
  have "read_meta (h1\<lparr>structs := structs h1 @ [(structs h ! p)\<lparr>oh_ObjectMeta := mh'\<rparr>]\<rparr>) mh' = Some m"
    using r by simp
  then show ?thesis using p d by (simp add: DeepCopy_h_def read_ing_def ing)
qed

lemma DeepCopy_h_read_svc:
  assumes "read_svc h p = Some svc"
  shows "\<exists>q h'. DeepCopy_h h p = Some (q, h') \<and> read_svc h' q = Some svc"
proof -
  from assms have p: "p < length (structs h)"
    and "\<exists>m. read_meta h (oh_ObjectMeta (structs h ! p)) = Some m
          \<and> svc = \<lparr>svc_ObjectMeta = m, \<dots> = ObjectH.more (structs h ! p)\<rparr>"
    by (auto simp: read_svc_def split: if_splits)
  then obtain m where m: "read_meta h (oh_ObjectMeta (structs h ! p)) = Some m"
    and svc: "svc = \<lparr>svc_ObjectMeta = m, \<dots> = ObjectH.more (structs h ! p)\<rparr>" by blast
  from DeepCopyMeta_h_read [OF m] obtain mh' h1 where
    d: "DeepCopyMeta_h h (oh_ObjectMeta (structs h ! p)) = Some (mh', h1)"
    and r: "read_meta h1 mh' = Some m" by blast
  have "read_meta (h1\<lparr>structs := structs h1 @ [(structs h ! p)\<lparr>oh_ObjectMeta := mh'\<rparr>]\<rparr>) mh' = Some m"
    using r by simp
  then show ?thesis using p d by (simp add: DeepCopy_h_def read_svc_def svc)
qed

lemma RemoveString_loop_h_elems:
  assumes "slice_elems h newSlice = Some acc"
  shows "\<exists>out h'. RemoveString_loop_h h items s modifier newSlice = Some (out, h')
           \<and> slice_elems h' out = Some (RemoveString_loop items s modifier acc)"
  using assms
proof (induction items arbitrary: h newSlice acc)
  case Nil
  then show ?case by simp
next
  case (Cons item rest)
  show ?case
  proof (cases "item = s \<or> (case modifier of None \<Rightarrow> False | Some f \<Rightarrow> f item = s)")
    case True
    with Cons.IH [OF Cons.prems] show ?thesis by auto
  next
    case False
    from go_append_elems [OF Cons.prems, of item] obtain ns h1 where
      a: "go_append h newSlice item = Some (ns, h1)"
      and e: "slice_elems h1 ns = Some (acc @ [item])" by blast
    from Cons.IH [OF e] False a show ?thesis by auto
  qed
qed

lemma slice_elems_length: "slice_elems h s = Some xs \<Longrightarrow> length xs = slice_len s"
  by (auto simp: slice_elems_def slice_len_def split: string_slice.splits if_splits)

lemma RemoveString_h_elems:
  assumes "slice_elems h slice = Some xs"
  shows "\<exists>out h'. RemoveString_h h slice s modifier = Some (out, h')
           \<and> slice_elems h' out = Some (RemoveString xs s modifier)"
proof -
  have e: "slice_elems (h\<lparr>arrays := arrays h @ [[]]\<rparr>) (Slice (length (arrays h)) 0 0) = Some []"
    by (simp add: slice_elems_def)
  from RemoveString_loop_h_elems [OF e, of xs s modifier] obtain out h' where
    l: "RemoveString_loop_h (h\<lparr>arrays := arrays h @ [[]]\<rparr>) xs s modifier
          (Slice (length (arrays h)) 0 0) = Some (out, h')"
    and o: "slice_elems h' out = Some (RemoveString_loop xs s modifier [])" by blast
  have n: "slice_elems h' NilSlice = Some []" by (simp add: slice_elems_def)
  show ?thesis
    using assms l o n slice_elems_length [OF o]
    by (auto simp: RemoveString_h_def RemoveString_def make_slice_def Let_def)
qed

subsection \<open>The operations on the heap compute the operations on values\<close>

text \<open>
  For an argument that points to an object, each operation on the heap returns, with
  the result and the client that the value-level operation gives on the object read
  through the pointer. So what is proved of the value level holds of the operations on
  pointers, and these do not panic on an object of the heap.
\<close>

lemma go_append_structs: "go_append h s x = Some (s', h') \<Longrightarrow> structs h' = structs h"
  by (auto simp: go_append_def make_slice_def split: string_slice.splits if_splits)

lemma RemoveString_loop_h_structs:
  "RemoveString_loop_h h items s modifier newSlice = Some (out, h') \<Longrightarrow> structs h' = structs h"
proof (induction h items s modifier newSlice rule: RemoveString_loop_h.induct)
  case (1 h s modifier newSlice)
  then show ?case by simp
next
  case (2 h item rest s modifier newSlice)
  show ?case
  proof (cases "item = s \<or> (case modifier of None \<Rightarrow> False | Some f \<Rightarrow> f item = s)")
    case True
    with "2.prems" "2.IH"(1,2) show ?thesis by (auto split: if_splits)
  next
    case False
    with "2.prems" obtain ns h1 where
      a: "go_append h newSlice item = Some (ns, h1)"
      and r: "RemoveString_loop_h h1 rest s modifier ns = Some (out, h')"
      by (auto split: Option.bind_splits)
    from "2.IH"(3) [of "(ns, h1)" ns h1] False a r go_append_structs [OF a] show ?thesis by auto
  qed
qed

lemma RemoveString_h_structs:
  "RemoveString_h h slice s modifier = Some (out, h') \<Longrightarrow> structs h' = structs h"
  by (auto simp: RemoveString_h_def make_slice_def Let_def
      split: Option.bind_splits dest: RemoveString_loop_h_structs)

lemma read_ing_SomeD:
  assumes "read_ing h p = Some ing"
  shows "p < length (structs h)"
    and "slice_elems h (mh_Finalizers (oh_ObjectMeta (structs h ! p)))
           = Some (Finalizers (ing_ObjectMeta ing))"
    and "read_meta h (oh_ObjectMeta (structs h ! p)) = Some (ing_ObjectMeta ing)"
  using assms by (auto simp: read_ing_def read_meta_def split: if_splits)

lemma read_svc_SomeD:
  assumes "read_svc h p = Some svc"
  shows "p < length (structs h)"
    and "slice_elems h (mh_Finalizers (oh_ObjectMeta (structs h ! p)))
           = Some (Finalizers (svc_ObjectMeta svc))"
    and "read_meta h (oh_ObjectMeta (structs h ! p)) = Some (svc_ObjectMeta svc)"
  using assms by (auto simp: read_svc_def read_meta_def split: if_splits)

lemma read_meta_set_finalizers:
  assumes "read_meta h1 mh = Some m" "slice_elems h2 fs = Some ys"
  shows "read_meta h2 (mh\<lparr>mh_Finalizers := fs\<rparr>) = Some (m\<lparr>Finalizers := ys\<rparr>)"
  using assms by (auto simp: read_meta_def)

lemma read_ing_set_finalizers:
  assumes "read_ing h1 q = Some ing" "structs h2 = structs h1" "slice_elems h2 fs = Some ys"
  shows "read_ing (h2\<lparr>structs := (structs h2)[q := (structs h2 ! q)
            \<lparr>oh_ObjectMeta := (oh_ObjectMeta (structs h2 ! q))\<lparr>mh_Finalizers := fs\<rparr>\<rparr>]\<rparr>) q
         = Some (ing\<lparr>ing_ObjectMeta := (ing_ObjectMeta ing)\<lparr>Finalizers := ys\<rparr>\<rparr>)"
proof -
  note d = read_ing_SomeD [OF assms(1)]
  have "read_meta h2 ((oh_ObjectMeta (structs h1 ! q))\<lparr>mh_Finalizers := fs\<rparr>)
          = Some ((ing_ObjectMeta ing)\<lparr>Finalizers := ys\<rparr>)"
    by (rule read_meta_set_finalizers [OF d(3) assms(3)])
  moreover have "ObjectH.more (structs h1 ! q) = Ingress.more ing"
    using assms(1) d(1) by (auto simp: read_ing_def)
  ultimately show ?thesis
    using d(1) assms(2) by (simp add: read_ing_def)
qed

lemma read_svc_set_finalizers:
  assumes "read_svc h1 q = Some svc" "structs h2 = structs h1" "slice_elems h2 fs = Some ys"
  shows "read_svc (h2\<lparr>structs := (structs h2)[q := (structs h2 ! q)
            \<lparr>oh_ObjectMeta := (oh_ObjectMeta (structs h2 ! q))\<lparr>mh_Finalizers := fs\<rparr>\<rparr>]\<rparr>) q
         = Some (svc\<lparr>svc_ObjectMeta := (svc_ObjectMeta svc)\<lparr>Finalizers := ys\<rparr>\<rparr>)"
proof -
  note d = read_svc_SomeD [OF assms(1)]
  have "read_meta h2 ((oh_ObjectMeta (structs h1 ! q))\<lparr>mh_Finalizers := fs\<rparr>)
          = Some ((svc_ObjectMeta svc)\<lparr>Finalizers := ys\<rparr>)"
    by (rule read_meta_set_finalizers [OF d(3) assms(3)])
  moreover have "ObjectH.more (structs h1 ! q) = Service.more svc"
    using assms(1) d(1) by (auto simp: read_svc_def)
  ultimately show ?thesis
    using d(1) assms(2) by (simp add: read_svc_def)
qed

lemma EnsureFinalizer_h_refines:
  assumes "read_ing h p = Some ing"
  shows "\<exists>q h'. EnsureFinalizer_h h p ic key =
            Some (map_sum id (\<lambda>_. q) (fst (EnsureFinalizer ing ic key)), h',
                  snd (EnsureFinalizer ing ic key))
          \<and> (\<forall>ing'. fst (EnsureFinalizer ing ic key) = Inr ing' \<longrightarrow> read_ing h' q = Some ing')"
proof -
  from DeepCopy_h_read_ing [OF assms] obtain q h1 where
    d: "DeepCopy_h h p = Some (q, h1)" and rq: "read_ing h1 q = Some ing" by blast
  have rp: "read_ing h1 p = Some ing"
    by (rule read_ing_extends [OF DeepCopy_h_extends(1) [OF d] assms])
  show ?thesis
  proof (cases "needToAddFinalizer (ing_ObjectMeta ing) key")
    case False
    then have "EnsureFinalizer ing ic key = (Inr ing, ic)"
      by (simp add: EnsureFinalizer_def DeepCopy_def)
    moreover have "EnsureFinalizer_h h p ic key = Some (Inr q, h1, ic)"
      using False d rp by (simp add: EnsureFinalizer_h_def)
    ultimately show ?thesis using rq by auto
  next
    case True
    let ?F = "Finalizers (ing_ObjectMeta ing)"
    let ?new = "ing\<lparr>ing_ObjectMeta := (ing_ObjectMeta ing)\<lparr>Finalizers := ?F @ [key]\<rparr>\<rparr>"
    from go_append_elems [OF read_ing_SomeD(2) [OF rq], of key] obtain fs h2 where
      a: "go_append h1 (mh_Finalizers (oh_ObjectMeta (structs h1 ! q))) key = Some (fs, h2)"
      and e: "slice_elems h2 fs = Some (?F @ [key])" by blast
    let ?h3 = "h2\<lparr>structs := (structs h2)[q := (structs h2 ! q)
            \<lparr>oh_ObjectMeta := (oh_ObjectMeta (structs h2 ! q))\<lparr>mh_Finalizers := fs\<rparr>\<rparr>]\<rparr>"
    have rq3: "read_ing ?h3 q = Some ?new"
      by (rule read_ing_set_finalizers [OF rq go_append_structs [OF a] e])
    have rp3: "read_ing ?h3 p = Some ing"
      by (rule read_ing_extends [OF append_to_copy_extends [OF d a] assms])
    have run: "EnsureFinalizer_h h p ic key =
      (case PatchIngressObjectMetadata ic ing (ing_ObjectMeta ?new) of
              (Inl err, ingClient') \<Rightarrow>
                Some (Inl (''error patching Ingress '' @ Namespace (ing_ObjectMeta ing) @ ''/''
                           @ Name (ing_ObjectMeta ing) @ '': '' @ err), ?h3, ingClient')
            | (Inr _, ingClient') \<Rightarrow> Some (Inr q, ?h3, ingClient'))"
      using True d rp a rq3 rp3 by (simp add: EnsureFinalizer_h_def Let_def)
    show ?thesis
      using True rq3 unfolding run
      by (auto simp: EnsureFinalizer_unfold needToAddFinalizer_iff PatchIngressObjectMetadata_def
          split: sum.splits)
  qed
qed

lemma read_meta_SomeD:
  "read_meta h mh = Some m \<Longrightarrow> slice_elems h (mh_Finalizers mh) = Some (Finalizers m)"
  by (auto simp: read_meta_def)

lemma EnsureDeleteFinalizer_h_refines:
  assumes "read_ing h p = Some ing"
  shows "\<exists>h'. EnsureDeleteFinalizer_h h p ic key =
            Some (fst (EnsureDeleteFinalizer ing ic key), h', snd (EnsureDeleteFinalizer ing ic key))"
proof (cases "HasGivenFinalizer (ing_ObjectMeta ing) key")
  case False
  then have "EnsureDeleteFinalizer ing ic key = (None, ic)"
    by (simp add: EnsureDeleteFinalizer_def)
  moreover have "EnsureDeleteFinalizer_h h p ic key = Some (None, h, ic)"
    using False assms by (simp add: EnsureDeleteFinalizer_h_def)
  ultimately show ?thesis by simp
next
  case True
  let ?m = "ing_ObjectMeta ing"
  let ?new = "?m\<lparr>Finalizers := RemoveString (Finalizers ?m) key None\<rparr>"
  from DeepCopyMeta_h_read [OF read_ing_SomeD(3) [OF assms]] obtain mh' h1 where
    d: "DeepCopyMeta_h h (oh_ObjectMeta (structs h ! p)) = Some (mh', h1)"
    and r: "read_meta h1 mh' = Some ?m" by blast
  from RemoveString_h_elems [OF read_meta_SomeD [OF r], of key None] obtain fs h2 where
    a: "RemoveString_h h1 (mh_Finalizers mh') key None = Some (fs, h2)"
    and e: "slice_elems h2 fs = Some (RemoveString (Finalizers ?m) key None)" by blast
  have rn: "read_meta h2 (mh'\<lparr>mh_Finalizers := fs\<rparr>) = Some ?new"
    by (rule read_meta_set_finalizers [OF r e])
  have "heap_extends h h2"
    using DeepCopyMeta_h_extends(1) [OF d] RemoveString_h_extends [OF a]
    by (rule heap_extends_trans)
  then have rp: "read_ing h2 p = Some ing" using assms by (rule read_ing_extends)
  have run: "EnsureDeleteFinalizer_h h p ic key =
      (case PatchIngressObjectMetadata ic ing ?new of
              (Inl err, ingClient') \<Rightarrow>
                Some (Some (''error patching Ingress '' @ Namespace (ing_ObjectMeta ing) @ ''/''
                            @ Name (ing_ObjectMeta ing) @ '': '' @ err), h2, ingClient')
            | (Inr _, ingClient') \<Rightarrow> Some (None, h2, ingClient'))"
    using True assms d a rn rp by (simp add: EnsureDeleteFinalizer_h_def Let_def)
  show ?thesis
    using True unfolding run
    by (auto simp: EnsureDeleteFinalizer_def DeepCopy_def Let_def PatchIngressObjectMetadata_def
        split: sum.splits)
qed

lemma EnsureServiceFinalizer_h_refines:
  assumes "read_svc h p = Some svc"
  shows "\<exists>h'. EnsureServiceFinalizer_h enc h p key kc =
            Some (fst (EnsureServiceFinalizer enc svc key kc), h',
                  snd (EnsureServiceFinalizer enc svc key kc))"
proof (cases "HasGivenFinalizer (svc_ObjectMeta svc) key")
  case True
  then have "EnsureServiceFinalizer enc svc key kc = (None, kc)"
    by (simp add: EnsureServiceFinalizer_def)
  moreover have "EnsureServiceFinalizer_h enc h p key kc = Some (None, h, kc)"
    using True assms by (simp add: EnsureServiceFinalizer_h_def)
  ultimately show ?thesis by simp
next
  case False
  let ?F = "Finalizers (svc_ObjectMeta svc)"
  let ?new = "svc\<lparr>svc_ObjectMeta := (svc_ObjectMeta svc)\<lparr>Finalizers := ?F @ [key]\<rparr>\<rparr>"
  from DeepCopy_h_read_svc [OF assms] obtain q h1 where
    d: "DeepCopy_h h p = Some (q, h1)" and rq: "read_svc h1 q = Some svc" by blast
  from go_append_elems [OF read_svc_SomeD(2) [OF rq], of key] obtain fs h2 where
    a: "go_append h1 (mh_Finalizers (oh_ObjectMeta (structs h1 ! q))) key = Some (fs, h2)"
    and e: "slice_elems h2 fs = Some (?F @ [key])" by blast
  let ?h3 = "h2\<lparr>structs := (structs h2)[q := (structs h2 ! q)
            \<lparr>oh_ObjectMeta := (oh_ObjectMeta (structs h2 ! q))\<lparr>mh_Finalizers := fs\<rparr>\<rparr>]\<rparr>"
  have rq3: "read_svc ?h3 q = Some ?new"
    by (rule read_svc_set_finalizers [OF rq go_append_structs [OF a] e])
  have rp3: "read_svc ?h3 p = Some svc"
    by (rule read_svc_extends [OF append_to_copy_extends [OF d a] assms])
  have run: "EnsureServiceFinalizer_h enc h p key kc =
      Some (fst (patchServiceFinalizer enc (Services kc (Namespace (svc_ObjectMeta svc))) svc ?new),
            ?h3,
            snd (patchServiceFinalizer enc (Services kc (Namespace (svc_ObjectMeta svc))) svc ?new))"
    using False assms d a rq3 rp3
    by (simp add: EnsureServiceFinalizer_h_def Let_def split: prod.splits)
  show ?thesis
    using False unfolding run by (simp add: EnsureServiceFinalizer_def DeepCopy_def Let_def)
qed

lemma EnsureDeleteServiceFinalizer_h_refines:
  assumes "read_svc h p = Some svc"
  shows "\<exists>h'. EnsureDeleteServiceFinalizer_h enc h p key kc =
            Some (fst (EnsureDeleteServiceFinalizer enc svc key kc), h',
                  snd (EnsureDeleteServiceFinalizer enc svc key kc))"
proof (cases "HasGivenFinalizer (svc_ObjectMeta svc) key")
  case False
  then have "EnsureDeleteServiceFinalizer enc svc key kc = (None, kc)"
    by (simp add: EnsureDeleteServiceFinalizer_def)
  moreover have "EnsureDeleteServiceFinalizer_h enc h p key kc = Some (None, h, kc)"
    using False assms by (simp add: EnsureDeleteServiceFinalizer_h_def)
  ultimately show ?thesis by simp
next
  case True
  let ?F = "Finalizers (svc_ObjectMeta svc)"
  let ?new = "svc\<lparr>svc_ObjectMeta := (svc_ObjectMeta svc)
                \<lparr>Finalizers := RemoveString ?F key None\<rparr>\<rparr>"
  from DeepCopy_h_read_svc [OF assms] obtain q h1 where
    d: "DeepCopy_h h p = Some (q, h1)" and rq: "read_svc h1 q = Some svc" by blast
  from RemoveString_h_elems [OF read_svc_SomeD(2) [OF rq], of key None] obtain fs h2 where
    a: "RemoveString_h h1 (mh_Finalizers (oh_ObjectMeta (structs h1 ! q))) key None = Some (fs, h2)"
    and e: "slice_elems h2 fs = Some (RemoveString ?F key None)" by blast
  let ?h3 = "h2\<lparr>structs := (structs h2)[q := (structs h2 ! q)
            \<lparr>oh_ObjectMeta := (oh_ObjectMeta (structs h2 ! q))\<lparr>mh_Finalizers := fs\<rparr>\<rparr>]\<rparr>"
  have rq3: "read_svc ?h3 q = Some ?new"
    by (rule read_svc_set_finalizers [OF rq RemoveString_h_structs [OF a] e])
  have rp3: "read_svc ?h3 p = Some svc"
    by (rule read_svc_extends [OF remove_from_copy_extends [OF d a] assms])
  have run: "EnsureDeleteServiceFinalizer_h enc h p key kc =
      Some (fst (patchServiceFinalizer enc (Services kc (Namespace (svc_ObjectMeta svc))) svc ?new),
            ?h3,
            snd (patchServiceFinalizer enc (Services kc (Namespace (svc_ObjectMeta svc))) svc ?new))"
    using True assms d a rq3 rp3
    by (simp add: EnsureDeleteServiceFinalizer_h_def Let_def split: prod.splits)
  show ?thesis
    using True unfolding run by (simp add: EnsureDeleteServiceFinalizer_def DeepCopy_def Let_def)
qed

subsection \<open>Runs on the sample heap\<close>

text \<open>
  The object \<open>default/web\<close> at address 0 has the finalizer list \<open>[A]\<close> in an array with one
  spare cell. An \<open>append\<close> to its own slice would write that cell, in place; the
  operations append to the slice of the copy instead.
\<close>

lemmas heap_samples = sample_meta_h_def sample_heap_def sample_heap_appended_def
  sample_heap_removed_def sample_heap_removed_copy_def

lemmas heap_ops = DeepCopy_h_def DeepCopyMeta_h_def make_slice_def slice_elems_def go_append_def
  read_ing_def read_svc_def read_meta_def RemoveString_h_def slice_len_def

lemma run_EnsureFinalizer_h:
  "EnsureFinalizer_h sample_heap 0 accepting_ingress_client ''B'' =
     Some (Inr 1, sample_heap_appended,
           accepting_ingress_client
             \<lparr>ic_submitted := [(sample_ing [''A''] None, sample_meta [''A'', ''B''] None)]\<rparr>)"
  by (simp add: EnsureFinalizer_h_def heap_ops heap_samples samples needToAddFinalizer_iff
      PatchIngressObjectMetadata_def)

lemma run_EnsureDeleteFinalizer_h:
  "EnsureDeleteFinalizer_h sample_heap 0 accepting_ingress_client ''A'' =
     Some (None, sample_heap_removed,
           accepting_ingress_client
             \<lparr>ic_submitted := [(sample_ing [''A''] None, sample_meta [] None)]\<rparr>)"
  by (simp add: EnsureDeleteFinalizer_h_def heap_ops heap_samples samples HasGivenFinalizer_set
      PatchIngressObjectMetadata_def)

lemma run_EnsureServiceFinalizer_h:
  "EnsureServiceFinalizer_h sample_encoding sample_heap 0 ''B'' accepting_kube_client =
     Some (None, sample_heap_appended,
           accepting_kube_client\<lparr>kc_calls :=
             [\<lparr>pc_namespace = ''default'', pc_name = ''web'', pc_type = StrategicMergePatchType,
               pc_data = ''A>AB'', pc_subresources = [''status'']\<rparr>]\<rparr>)"
  by (simp add: EnsureServiceFinalizer_h_def heap_ops heap_samples samples HasGivenFinalizer_set
      patchServiceFinalizer_def Patch_def Services_def)

lemma run_EnsureDeleteServiceFinalizer_h:
  "EnsureDeleteServiceFinalizer_h sample_encoding sample_heap 0 ''A'' accepting_kube_client =
     Some (None, sample_heap_removed_copy,
           accepting_kube_client\<lparr>kc_calls :=
             [\<lparr>pc_namespace = ''default'', pc_name = ''web'', pc_type = StrategicMergePatchType,
               pc_data = ''A>'', pc_subresources = [''status'']\<rparr>]\<rparr>)"
  by (simp add: EnsureDeleteServiceFinalizer_h_def heap_ops heap_samples samples
      HasGivenFinalizer_set patchServiceFinalizer_def Patch_def Services_def)

lemma append_without_copy_writes_shared_array:
  "go_append sample_heap (Slice 0 1 2) ''B'' =
     Some (Slice 0 2 2, sample_heap\<lparr>arrays := [[''A'', ''B'']]\<rparr>)
   \<and> \<not> heap_extends sample_heap (sample_heap\<lparr>arrays := [[''A'', ''B'']]\<rparr>)"
  by (simp add: go_append_def heap_extends_def heap_samples)


subsection \<open>The caller's object\<close>

text \<open>
  C8. Each of the four mutation operations leaves the object it is given unchanged.
  Whenever the argument points to an object of the heap, the operation returns, every
  struct and array that existed before the call has the same contents after it (all
  writes go to cells allocated during the call, the deep copy and the slices built from
  it), and the object read through the argument, its finalizer list included, is the
  same before and after.
\<close>

theorem mutation_leaves_input_unchanged:
  "(read_ing h p = Some ing \<longrightarrow>
      (\<exists>r h' ic'. EnsureFinalizer_h h p ic key = Some (r, h', ic')
         \<and> heap_extends h h' \<and> read_ing h' p = Some ing))
   \<and> (read_ing h p = Some ing \<longrightarrow>
      (\<exists>e h' ic'. EnsureDeleteFinalizer_h h p ic key = Some (e, h', ic')
         \<and> heap_extends h h' \<and> read_ing h' p = Some ing))
   \<and> (read_svc h p = Some svc \<longrightarrow>
      (\<exists>e h' kc'. EnsureServiceFinalizer_h enc h p key kc = Some (e, h', kc')
         \<and> heap_extends h h' \<and> read_svc h' p = Some svc))
   \<and> (read_svc h p = Some svc \<longrightarrow>
      (\<exists>e h' kc'. EnsureDeleteServiceFinalizer_h enc h p key kc = Some (e, h', kc')
         \<and> heap_extends h h' \<and> read_svc h' p = Some svc))"
proof (intro conjI impI)
  assume v: "read_ing h p = Some ing"
  from EnsureFinalizer_h_refines [OF v, of ic key] obtain r h' ic' where
    run: "EnsureFinalizer_h h p ic key = Some (r, h', ic')" by blast
  note e = EnsureFinalizer_h_extends(1) [OF run]
  from run e read_ing_extends [OF e v]
  show "\<exists>r h' ic'. EnsureFinalizer_h h p ic key = Some (r, h', ic')
         \<and> heap_extends h h' \<and> read_ing h' p = Some ing" by blast
next
  assume v: "read_ing h p = Some ing"
  from EnsureDeleteFinalizer_h_refines [OF v, of ic key] obtain e h' ic' where
    run: "EnsureDeleteFinalizer_h h p ic key = Some (e, h', ic')" by blast
  note x = EnsureDeleteFinalizer_h_extends(1) [OF run]
  from run x read_ing_extends [OF x v]
  show "\<exists>e h' ic'. EnsureDeleteFinalizer_h h p ic key = Some (e, h', ic')
         \<and> heap_extends h h' \<and> read_ing h' p = Some ing" by blast
next
  assume v: "read_svc h p = Some svc"
  from EnsureServiceFinalizer_h_refines [OF v, of enc key kc] obtain e h' kc' where
    run: "EnsureServiceFinalizer_h enc h p key kc = Some (e, h', kc')" by blast
  note x = EnsureServiceFinalizer_h_extends(1) [OF run]
  from run x read_svc_extends [OF x v]
  show "\<exists>e h' kc'. EnsureServiceFinalizer_h enc h p key kc = Some (e, h', kc')
         \<and> heap_extends h h' \<and> read_svc h' p = Some svc" by blast
next
  assume v: "read_svc h p = Some svc"
  from EnsureDeleteServiceFinalizer_h_refines [OF v, of enc key kc] obtain e h' kc' where
    run: "EnsureDeleteServiceFinalizer_h enc h p key kc = Some (e, h', kc')" by blast
  note x = EnsureDeleteServiceFinalizer_h_extends(1) [OF run]
  from run x read_svc_extends [OF x v]
  show "\<exists>e h' kc'. EnsureDeleteServiceFinalizer_h enc h p key kc = Some (e, h', kc')
         \<and> heap_extends h h' \<and> read_svc h' p = Some svc" by blast
qed

theorem mutation_leaves_input_unchanged_witness:
  "heap_extends sample_heap sample_heap_appended
   \<and> read_ing sample_heap_appended 0 = Some (sample_ing [''A''] None)
   \<and> heap_extends sample_heap sample_heap_removed
   \<and> read_ing sample_heap_removed 0 = Some (sample_ing [''A''] None)
   \<and> read_svc sample_heap_appended 0 = Some (sample_svc [''A''] None)
   \<and> heap_extends sample_heap sample_heap_removed_copy
   \<and> read_svc sample_heap_removed_copy 0 = Some (sample_svc [''A''] None)"
proof -
  have ing: "read_ing sample_heap 0 = Some (sample_ing [''A''] None)"
    by (simp add: heap_ops heap_samples samples)
  have svc: "read_svc sample_heap 0 = Some (sample_svc [''A''] None)"
    by (simp add: heap_ops heap_samples samples)
  note a = mutation_leaves_input_unchanged [THEN conjunct1, rule_format, OF ing,
      of accepting_ingress_client "''B''"]
  note b = mutation_leaves_input_unchanged [THEN conjunct2, THEN conjunct1, rule_format, OF ing,
      of accepting_ingress_client "''A''"]
  note c = mutation_leaves_input_unchanged [THEN conjunct2, THEN conjunct2, THEN conjunct1,
      rule_format, OF svc, of sample_encoding "''B''" accepting_kube_client]
  note d = mutation_leaves_input_unchanged [THEN conjunct2, THEN conjunct2, THEN conjunct2,
      rule_format, OF svc, of sample_encoding "''A''" accepting_kube_client]
  from a b c d show ?thesis
    by (simp add: run_EnsureFinalizer_h run_EnsureDeleteFinalizer_h run_EnsureServiceFinalizer_h
        run_EnsureDeleteServiceFinalizer_h)
qed


end
